theory Spec2Isabelle
  imports Main "HOL-Library.Word"
begin

section \<open>The state machine of transition.go\<close>

text \<open>
  The Go file declares a state machine that is embedded into a persisted entity
  (\<open>StateMachine\<close>, holding a back reference \<open>stater\<close> to the entity), the
  audit row \<open>StateMachineLog\<close>, and the two operations \<open>AvailableTriggers\<close>
  and \<open>Do\<close>. The trigger table is a Go \<open>map[string]map[string]interface{}\<close>;
  the persistence handle is a \<open>*gorm.DB\<close>.
\<close>

subsection \<open>Values and errors\<close>

text \<open>Go's \<open>uint\<close> on a 64-bit target.\<close>

type_synonym uint = "64 word"

text \<open>
  A Go \<open>error\<close> value: either one made by \<open>errors.New\<close> inside \<open>Do\<close>
  (it carries its message) or any other error that a hook or the handle produced.
\<close>

datatype 'e error = ErrorsNew string | Foreign 'e

text \<open>
  The three places where \<open>Do\<close> can panic: a type assertion that fails, the call of a
  function value that is \<open>nil\<close>, and \<open>Uint()\<close> on something that is not an unsigned
  field.
\<close>

datatype panic = FailedAssertion | NilCall | NoUintID

text \<open>
  What a call leaves behind: it returns an \<open>error\<close> (\<open>None\<close> is Go's \<open>nil\<close>),
  or it panics.
\<close>

datatype 'e outcome = Panic panic | Return "'e error option"

subsection \<open>The audit row and the handle\<close>

text \<open>
  The six columns of \<open>StateMachineLog\<close> that \<open>log\<close> fills in; the columns of
  the embedded \<open>gorm.Model\<close> are assigned by the database.
\<close>

record StateMachineLog =
  ObjectId :: uint
  ObjectStruct :: string
  Trigger :: string
  Source :: string
  Dest :: string
  OperatorId :: uint

text \<open>The value of a column: a text, or a point in time.\<close>

datatype colval = TextVal string | TimeVal nat

text \<open>
  An update can fail at two moments: before gorm has assigned the new values to the
  entity in memory (the handle carries an error already, the model cannot be parsed), or
  when the statement is executed, after the assignment.
\<close>

datatype 'e fault = BeforeAssign "'e error" | AtExec "'e error"

fun fault_error :: "'e fault \<Rightarrow> 'e error" where
  "fault_error (BeforeAssign err) = err"
| "fault_error (AtExec err) = err"

text \<open>
  The database behind the handle \<open>tx\<close>, as far as \<open>Do\<close> touches it: the columns
  of the entity's own row, the table of audit rows, the time that the handle's
  \<open>NowFunc\<close> reports (\<open>now\<close>), and whatever else the hooks work on (\<open>other\<close>).
  Whether the next \<open>Update\<close> or \<open>Create\<close> fails is decided by the handle, not by
  \<open>Do\<close>: \<open>update_error\<close> and \<open>create_error\<close> hold the failure that the next
  such call reports, if any.
\<close>

record ('e, 'x) DB =
  row :: "string \<rightharpoonup> colval"
  log_table :: "StateMachineLog list"
  update_error :: "'e fault option"
  create_error :: "'e error option"
  now :: nat
  other :: 'x

text \<open>\<open>tx.Create(&rec).Error\<close>: one row is appended to the audit table.\<close>

definition Create :: "('e, 'x) DB \<Rightarrow> StateMachineLog \<Rightarrow> 'e error option \<times> ('e, 'x) DB" where
  "Create tx r =
     (case create_error tx of
        Some err \<Rightarrow> (Some err, tx)
      | None \<Rightarrow> (None, tx\<lparr>log_table := log_table tx @ [r]\<rparr>))"

subsection \<open>The trigger table\<close>

text \<open>
  An \<open>interface{}\<close> value stored in a trigger's configuration: a string, a function
  \<open>func(*gorm.DB, ...interface{}) bool\<close>, a function
  \<open>func(*gorm.DB, ...interface{}) error\<close>, or a value of any other type. The hooks
  receive the handle, so they may change the database; they are taken to return and to
  leave the entity in memory alone. \<open>'a\<close> is the type of the variadic arguments. A
  key that is missing, and a key bound to \<open>nil\<close>, both read as \<open>nil\<close>, here
  \<open>None\<close>. A \<open>nil\<close> function value of one of the two function types passes the
  type assertion and panics when it is called: \<open>VNilCondition\<close> and \<open>VNilHook\<close>.
\<close>

datatype ('a, 'e, 'x) iface =
    VString string
  | VCondition "('e, 'x) DB \<Rightarrow> 'a list \<Rightarrow> bool \<times> ('e, 'x) DB"
  | VNilCondition
  | VHook "('e, 'x) DB \<Rightarrow> 'a list \<Rightarrow> 'e error option \<times> ('e, 'x) DB"
  | VNilHook
  | VOther

type_synonym ('a, 'e, 'x) config = "string \<rightharpoonup> ('a, 'e, 'x) iface"

text \<open>
  The type assertions \<open>v.(string)\<close> and \<open>v.(func ...)\<close>; \<open>None\<close> is the panic.
  An assertion to a function type yields the function value, which may be \<open>nil\<close>
  (\<open>Some None\<close>).
\<close>

fun assert_string :: "('a, 'e, 'x) iface option \<Rightarrow> string option" where
  "assert_string (Some (VString s)) = Some s"
| "assert_string _ = None"

fun assert_condition ::
  "('a, 'e, 'x) iface \<Rightarrow> (('e, 'x) DB \<Rightarrow> 'a list \<Rightarrow> bool \<times> ('e, 'x) DB) option option" where
  "assert_condition (VCondition f) = Some (Some f)"
| "assert_condition VNilCondition = Some None"
| "assert_condition _ = None"

fun assert_hook ::
  "('a, 'e, 'x) iface \<Rightarrow>
   (('e, 'x) DB \<Rightarrow> 'a list \<Rightarrow> 'e error option \<times> ('e, 'x) DB) option option" where
  "assert_hook (VHook f) = Some (Some f)"
| "assert_hook VNilHook = Some None"
| "assert_hook _ = None"

subsection \<open>The entity\<close>

text \<open>
  What \<open>reflect.ValueOf(sm.stater).Elem().FieldByName("ID")\<close> finds: no such field, a
  field of an unsigned integer kind, or a field of another kind. \<open>Uint()\<close> panics on
  the first and the last.
\<close>

datatype idfield = NoField | UintField uint | OtherKind

text \<open>
  The entity that \<open>sm.stater\<close> points to: the name of its struct type (what
  \<open>StructName\<close> computes by reflection), its \<open>ID\<close> field, the results of its methods
  \<open>States()\<close> and \<open>Triggers()\<close>, the \<open>State\<close> field of the embedded
  \<open>Transition\<close>, and its field \<open>UpdatedAt\<close>, which gorm keeps up to date
  (\<open>None\<close>: the struct has no such field; an entity that embeds \<open>gorm.Model\<close> has
  it). Every other field of the entity is in the record's extension.
  The machine is taken to be bound to its entity (\<open>SetStater\<close> has been called), and
  the entity to have the methods \<open>GetState\<close> and \<open>SetState\<close> of the embedded
  \<open>Transition\<close>.
\<close>

record ('a, 'e, 'x) stater =
  StructName :: string
  ID :: idfield
  States :: "string list"
  Triggers :: "string \<rightharpoonup> ('a, 'e, 'x) config"
  State :: string
  UpdatedAt :: "nat option"

definition GetState :: "('a, 'e, 'x, 'm) stater_scheme \<Rightarrow> string" where
  "GetState ts = State ts"

definition SetState :: "('a, 'e, 'x, 'm) stater_scheme \<Rightarrow> string \<Rightarrow> ('a, 'e, 'x, 'm) stater_scheme" where
  "SetState ts state = ts\<lparr>State := state\<rparr>"

subsection \<open>The update through the handle\<close>

text \<open>
  \<open>tx.Model(obj).Omit(clause.Associations).Update(column, value).Error\<close> is gorm's
  \<open>Update\<close>, not its \<open>UpdateColumn\<close>: besides the named column it keeps the
  time of the last update. When the entity has the field \<open>UpdatedAt\<close> (and the
  named column is not that one), the column \<open>updated_at\<close> is set to the time that
  \<open>NowFunc\<close> reports. Associations are left out. The entity is taken to declare
  no gorm hooks of its own (\<open>BeforeUpdate\<close> and the like).
\<close>

definition tracks_time :: "('a, 'e, 'x, 'm) stater_scheme \<Rightarrow> string \<Rightarrow> bool" where
  "tracks_time obj column \<longleftrightarrow> UpdatedAt obj \<noteq> None \<and> column \<noteq> ''updated_at''"

text \<open>
  What the update assigns to the entity in memory: the field of the named column (of the
  fields here, \<open>State\<close> for \<open>state\<close>) and \<open>UpdatedAt\<close>.
\<close>

definition assigned ::
  "('e, 'x) DB \<Rightarrow> ('a, 'e, 'x, 'm) stater_scheme \<Rightarrow> string \<Rightarrow> string \<Rightarrow>
   ('a, 'e, 'x, 'm) stater_scheme" where
  "assigned tx obj column v =
     (let obj' = (if column = ''state'' then obj\<lparr>State := v\<rparr> else obj)
      in if tracks_time obj column then obj'\<lparr>UpdatedAt := Some (now tx)\<rparr> else obj')"

text \<open>What the update writes to the entity's row.\<close>

definition written ::
  "('e, 'x) DB \<Rightarrow> ('a, 'e, 'x, 'm) stater_scheme \<Rightarrow> string \<Rightarrow> string \<Rightarrow> ('e, 'x) DB" where
  "written tx obj column v =
     (if tracks_time obj column
      then tx\<lparr>row := (row tx)(column \<mapsto> TextVal v, ''updated_at'' \<mapsto> TimeVal (now tx))\<rparr>
      else tx\<lparr>row := (row tx)(column \<mapsto> TextVal v)\<rparr>)"

text \<open>
  The call returns its error, the entity and the database. A call that fails writes no
  row; one that fails at execution has assigned to the entity already.
\<close>

definition Update ::
  "('e, 'x) DB \<Rightarrow> ('a, 'e, 'x, 'm) stater_scheme \<Rightarrow> string \<Rightarrow> string \<Rightarrow>
   'e error option \<times> ('a, 'e, 'x, 'm) stater_scheme \<times> ('e, 'x) DB" where
  "Update tx obj column v =
     (case update_error tx of
        Some (BeforeAssign err) \<Rightarrow> (Some err, obj, tx)
      | Some (AtExec err) \<Rightarrow> (Some err, assigned tx obj column v, tx)
      | None \<Rightarrow> (None, assigned tx obj column v, written tx obj column v))"

subsection \<open>Splitting the source list\<close>

text \<open>\<open>strings.Split(s, sep)\<close> for a separator of one byte, as \<open>","\<close> is.\<close>

fun Split :: "string \<Rightarrow> char \<Rightarrow> string list" where
  "Split [] sep = [[]]"
| "Split (c # cs) sep =
     (if c = sep then [] # Split cs sep
      else (case Split cs sep of
              [] \<Rightarrow> [[c]]
            | w # ws \<Rightarrow> (c # w) # ws))"

text \<open>
  The loop of \<open>Do\<close> over the split source list. It assigns each element to the
  variable \<open>src\<close> declared before the loop and sets \<open>canDo\<close> on a match; it has no
  \<open>break\<close>.
\<close>

fun scan_sources :: "string list \<Rightarrow> string \<Rightarrow> bool \<times> string \<Rightarrow> bool \<times> string" where
  "scan_sources [] currentState (canDo, src) = (canDo, src)"
| "scan_sources (s # ss) currentState (canDo, src) =
     scan_sources ss currentState (if s = currentState then True else canDo, s)"

subsection \<open>What a call of \<open>Do\<close> does to its surroundings\<close>

text \<open>
  The calls that \<open>Do\<close> makes on the hooks, the entity and the handle, in the order
  in which it makes them. The list is kept beside the result so that "the hook was not
  invoked" and "one row was inserted" can be stated about the call itself.
\<close>

datatype 'a event =
    CallCondition "'a list"
  | CallBefore "'a list"
  | CallSetState string
  | CallUpdate string string
  | CallAfter "'a list"
  | CallPrintln string string
  | CallCreate StateMachineLog

text \<open>
  The result of a call: what it returned, the entity and the database as the call left
  them, and the calls it made.
\<close>

record ('a, 'e, 'x, 'm) result =
  res_ret :: "'e outcome"
  res_entity :: "('a, 'e, 'x, 'm) stater_scheme"
  res_db :: "('e, 'x) DB"
  res_calls :: "'a event list"

subsection \<open>\<open>log\<close>\<close>

text \<open>
  The row is built first: reading the \<open>ID\<close> field by reflection panics unless the field
  is there and unsigned. Then the row is created through the handle.
\<close>

definition log ::
  "('e, 'x) DB \<Rightarrow> ('a, 'e, 'x, 'm) stater_scheme \<Rightarrow> string \<Rightarrow> string \<Rightarrow> string \<Rightarrow> uint \<Rightarrow>
   'a event list \<Rightarrow> ('a, 'e, 'x, 'm) result" where
  "log tx sm trigger source dest userInfoId calls =
     (case ID sm of
        UintField n \<Rightarrow>
          (let r = \<lparr>ObjectId = n, ObjectStruct = StructName sm, Trigger = trigger,
                    Source = source, Dest = dest, OperatorId = userInfoId\<rparr>
           in (case Create tx r of
                 (Some err, tx') \<Rightarrow>
                   \<lparr>res_ret = Return (Some err), res_entity = sm, res_db = tx',
                    res_calls = calls @ [CallCreate r]\<rparr>
               | (None, tx') \<Rightarrow>
                   \<lparr>res_ret = Return None, res_entity = sm, res_db = tx',
                    res_calls = calls @ [CallCreate r]\<rparr>))
      | _ \<Rightarrow> \<lparr>res_ret = Panic NoUintID, res_entity = sm, res_db = tx, res_calls = calls\<rparr>)"

subsection \<open>\<open>Do\<close>\<close>

text \<open>The after-hook, the \<open>Println\<close> and the audit row (the end of \<open>Do\<close>).\<close>

definition Do_after ::
  "('e, 'x) DB \<Rightarrow> ('a, 'e, 'x, 'm) stater_scheme \<Rightarrow> string \<Rightarrow> uint \<Rightarrow> 'a list \<Rightarrow>
   ('a, 'e, 'x) iface option \<Rightarrow> string \<Rightarrow> string \<Rightarrow> 'a event list \<Rightarrow> ('a, 'e, 'x, 'm) result" where
  "Do_after tx sm trigger userInfoId args afterFunc src dest calls =
     (case afterFunc of
        None \<Rightarrow> log tx sm trigger src dest userInfoId (calls @ [CallPrintln src dest])
      | Some v \<Rightarrow>
          (case assert_hook v of
             None \<Rightarrow>
               \<lparr>res_ret = Panic FailedAssertion, res_entity = sm, res_db = tx,
                res_calls = calls\<rparr>
           | Some None \<Rightarrow>
               \<lparr>res_ret = Panic NilCall, res_entity = sm, res_db = tx, res_calls = calls\<rparr>
           | Some (Some f) \<Rightarrow>
               (case f tx args of
                  (Some err, tx') \<Rightarrow>
                    \<lparr>res_ret = Return (Some err), res_entity = sm, res_db = tx',
                     res_calls = calls @ [CallAfter args]\<rparr>
                | (None, tx') \<Rightarrow>
                    log tx' sm trigger src dest userInfoId
                      (calls @ [CallAfter args, CallPrintln src dest]))))"

text \<open>
  \<open>SetState(dest)\<close>, then the update of the column \<open>state\<close> on the model
  \<open>sm.stater\<close>.
\<close>

definition Do_persist ::
  "('e, 'x) DB \<Rightarrow> ('a, 'e, 'x, 'm) stater_scheme \<Rightarrow> string \<Rightarrow> uint \<Rightarrow> 'a list \<Rightarrow>
   ('a, 'e, 'x) iface option \<Rightarrow> string \<Rightarrow> string \<Rightarrow> 'a event list \<Rightarrow> ('a, 'e, 'x, 'm) result" where
  "Do_persist tx sm trigger userInfoId args afterFunc src dest calls =
     (let sm' = SetState sm dest;
          calls' = calls @ [CallSetState dest, CallUpdate ''state'' dest]
      in (case Update tx sm' ''state'' dest of
            (Some err, sm'', tx') \<Rightarrow>
              \<lparr>res_ret = Return (Some err), res_entity = sm'', res_db = tx', res_calls = calls'\<rparr>
          | (None, sm'', tx') \<Rightarrow>
              Do_after tx' sm'' trigger userInfoId args afterFunc src dest calls'))"

text \<open>The before-hook.\<close>

definition Do_before ::
  "('e, 'x) DB \<Rightarrow> ('a, 'e, 'x, 'm) stater_scheme \<Rightarrow> string \<Rightarrow> uint \<Rightarrow> 'a list \<Rightarrow>
   ('a, 'e, 'x) iface option \<Rightarrow> ('a, 'e, 'x) iface option \<Rightarrow> string \<Rightarrow> string \<Rightarrow>
   'a event list \<Rightarrow> ('a, 'e, 'x, 'm) result" where
  "Do_before tx sm trigger userInfoId args beforeFunc afterFunc src dest calls =
     (case beforeFunc of
        None \<Rightarrow> Do_persist tx sm trigger userInfoId args afterFunc src dest calls
      | Some v \<Rightarrow>
          (case assert_hook v of
             None \<Rightarrow>
               \<lparr>res_ret = Panic FailedAssertion, res_entity = sm, res_db = tx,
                res_calls = calls\<rparr>
           | Some None \<Rightarrow>
               \<lparr>res_ret = Panic NilCall, res_entity = sm, res_db = tx, res_calls = calls\<rparr>
           | Some (Some f) \<Rightarrow>
               (case f tx args of
                  (Some err, tx') \<Rightarrow>
                    \<lparr>res_ret = Return (Some err), res_entity = sm, res_db = tx',
                     res_calls = calls @ [CallBefore args]\<rparr>
                | (None, tx') \<Rightarrow>
                    Do_persist tx' sm trigger userInfoId args afterFunc src dest
                      (calls @ [CallBefore args]))))"

text \<open>The guard: when it answers \<open>false\<close>, \<open>Do\<close> returns \<open>nil\<close>.\<close>

definition Do_condition ::
  "('e, 'x) DB \<Rightarrow> ('a, 'e, 'x, 'm) stater_scheme \<Rightarrow> string \<Rightarrow> uint \<Rightarrow> 'a list \<Rightarrow>
   ('a, 'e, 'x) iface option \<Rightarrow> ('a, 'e, 'x) iface option \<Rightarrow> ('a, 'e, 'x) iface option \<Rightarrow>
   string \<Rightarrow> string \<Rightarrow> ('a, 'e, 'x, 'm) result" where
  "Do_condition tx sm trigger userInfoId args conditionFunc beforeFunc afterFunc src dest =
     (case conditionFunc of
        None \<Rightarrow> Do_before tx sm trigger userInfoId args beforeFunc afterFunc src dest []
      | Some v \<Rightarrow>
          (case assert_condition v of
             None \<Rightarrow>
               \<lparr>res_ret = Panic FailedAssertion, res_entity = sm, res_db = tx, res_calls = []\<rparr>
           | Some None \<Rightarrow>
               \<lparr>res_ret = Panic NilCall, res_entity = sm, res_db = tx, res_calls = []\<rparr>
           | Some (Some f) \<Rightarrow>
               (case f tx args of
                  (False, tx') \<Rightarrow>
                    \<lparr>res_ret = Return None, res_entity = sm, res_db = tx',
                     res_calls = [CallCondition args]\<rparr>
                | (True, tx') \<Rightarrow>
                    Do_before tx' sm trigger userInfoId args beforeFunc afterFunc src dest
                      [CallCondition args])))"

text \<open>
  \<open>Do\<close> itself: the lookup of the trigger, the two type assertions on \<open>source\<close> and
  \<open>dest\<close>, the scan of the source list, and the rest.
\<close>

definition Do ::
  "('e, 'x) DB \<Rightarrow> ('a, 'e, 'x, 'm) stater_scheme \<Rightarrow> string \<Rightarrow> uint \<Rightarrow> 'a list \<Rightarrow>
   ('a, 'e, 'x, 'm) result" where
  "Do tx sm trigger userInfoId args =
     (case Triggers sm trigger of
        None \<Rightarrow>
          \<lparr>res_ret = Return (Some (ErrorsNew (''can not do trigger: '' @ trigger))),
           res_entity = sm, res_db = tx, res_calls = []\<rparr>
      | Some cfg \<Rightarrow>
          (case assert_string (cfg ''source'') of
             None \<Rightarrow>
               \<lparr>res_ret = Panic FailedAssertion, res_entity = sm, res_db = tx, res_calls = []\<rparr>
           | Some source \<Rightarrow>
               (case assert_string (cfg ''dest'') of
                  None \<Rightarrow>
                    \<lparr>res_ret = Panic FailedAssertion, res_entity = sm, res_db = tx,
                     res_calls = []\<rparr>
                | Some dest \<Rightarrow>
                    (let beforeFunc = cfg ''before'';
                         afterFunc = cfg ''after'';
                         conditionFunc = cfg ''condition'';
                         currentState = GetState sm
                     in (case scan_sources (Split source CHR '','') currentState (False, [])
                         of (canDo, src) \<Rightarrow>
                           if \<not> canDo then
                             \<lparr>res_ret = Return (Some (ErrorsNew
                                (''can not do trigger: '' @ trigger @ '', current state: '' @
                                 currentState))),
                              res_entity = sm, res_db = tx, res_calls = []\<rparr>
                           else Do_condition tx sm trigger userInfoId args
                                  conditionFunc beforeFunc afterFunc src dest)))))"

subsection \<open>\<open>AvailableTriggers\<close>\<close>

record AvailableTrigger =
  TranslatedTrigger :: string
  TriggerName :: string

text \<open>
  The field \<open>Trigger\<close> of the Go struct \<open>AvailableTrigger\<close> is \<open>TriggerName\<close>
  here, since \<open>StateMachineLog\<close> has a field of that name too.

  The inner loop: one entry is appended for every element of the split source list that
  equals the current state.
\<close>

fun append_matches ::
  "string list \<Rightarrow> string \<Rightarrow> AvailableTrigger \<Rightarrow> AvailableTrigger list \<Rightarrow> AvailableTrigger list" where
  "append_matches [] currentState entry triggers = triggers"
| "append_matches (src # srcs) currentState entry triggers =
     append_matches srcs currentState entry
       (if src = currentState then triggers @ [entry] else triggers)"

text \<open>
  The outer loop ranges over a Go map, whose iteration order the language leaves open:
  the keys come in the order \<open>keys\<close>, which is any enumeration of the table's keys.
  \<open>Sprintf\<close> stands for \<open>Lang.Sprintf\<close>, the translation catalogue. \<open>None\<close> is the
  panic of \<open>source.(string)\<close>. A name in \<open>keys\<close> that is not a key of the table
  is passed over; an enumeration of the keys has none.
\<close>

fun AvailableTriggers_loop ::
  "(string \<Rightarrow> string) \<Rightarrow> ('a, 'e, 'x, 'm) stater_scheme \<Rightarrow> string list \<Rightarrow>
   AvailableTrigger list \<Rightarrow> AvailableTrigger list option" where
  "AvailableTriggers_loop Sprintf sm [] triggers = Some triggers"
| "AvailableTriggers_loop Sprintf sm (trigger # keys) triggers =
     (case Triggers sm trigger of
        None \<Rightarrow> AvailableTriggers_loop Sprintf sm keys triggers
      | Some config \<Rightarrow>
          (case assert_string (config ''source'') of
             None \<Rightarrow> None
           | Some source \<Rightarrow>
               AvailableTriggers_loop Sprintf sm keys
                 (append_matches (Split source CHR '','') (GetState sm)
                    \<lparr>TranslatedTrigger = Sprintf (StructName sm @ '':'' @ trigger),
                     TriggerName = trigger\<rparr>
                    triggers)))"

definition iteration_order :: "('a, 'e, 'x, 'm) stater_scheme \<Rightarrow> string list \<Rightarrow> bool" where
  "iteration_order sm keys \<longleftrightarrow> distinct keys \<and> set keys = dom (Triggers sm)"

definition AvailableTriggers ::
  "(string \<Rightarrow> string) \<Rightarrow> string list \<Rightarrow> ('a, 'e, 'x, 'm) stater_scheme \<Rightarrow>
   AvailableTrigger list option" where
  "AvailableTriggers Sprintf keys sm = AvailableTriggers_loop Sprintf sm keys []"

subsection \<open>Vocabulary of the properties\<close>

text \<open>The set of source states that a trigger's \<open>source\<close> string denotes.\<close>

definition sourceStates :: "string \<Rightarrow> string set" where
  "sourceStates source = set (Split source CHR '','')"

text \<open>
  The guard of a configuration is absent, or it answers \<open>true\<close> on \<open>tx\<close> and
  leaves the database \<open>tx'\<close>.
\<close>

definition guard_passes ::
  "('a, 'e, 'x) config \<Rightarrow> ('e, 'x) DB \<Rightarrow> 'a list \<Rightarrow> ('e, 'x) DB \<Rightarrow> bool" where
  "guard_passes cfg tx args tx' =
     (case cfg ''condition'' of
        None \<Rightarrow> tx' = tx
      | Some v \<Rightarrow>
          (case assert_condition v of
             Some (Some g) \<Rightarrow> g tx args = (True, tx')
           | _ \<Rightarrow> False))"

definition guard_calls :: "('a, 'e, 'x) config \<Rightarrow> 'a list \<Rightarrow> 'a event list" where
  "guard_calls cfg args = (case cfg ''condition'' of None \<Rightarrow> [] | Some v \<Rightarrow> [CallCondition args])"

text \<open>
  A hook entry is absent, or it is a hook that returns \<open>nil\<close> on \<open>tx\<close> and leaves
  the database \<open>tx'\<close>.
\<close>

definition hook_succeeds ::
  "('a, 'e, 'x) iface option \<Rightarrow> ('e, 'x) DB \<Rightarrow> 'a list \<Rightarrow> ('e, 'x) DB \<Rightarrow> bool" where
  "hook_succeeds h tx args tx' =
     (case h of
        None \<Rightarrow> tx' = tx
      | Some v \<Rightarrow>
          (case assert_hook v of
             Some (Some f) \<Rightarrow> f tx args = (None, tx')
           | _ \<Rightarrow> False))"

definition hook_calls :: "('a, 'e, 'x) iface option \<Rightarrow> 'a event \<Rightarrow> 'a event list" where
  "hook_calls h ev = (case h of None \<Rightarrow> [] | Some v \<Rightarrow> [ev])"

text \<open>The calls that update a column, and the calls of \<open>Println\<close>.\<close>

fun is_update :: "'a event \<Rightarrow> bool" where
  "is_update (CallUpdate column v) = True"
| "is_update _ = False"

fun is_println :: "'a event \<Rightarrow> bool" where
  "is_println (CallPrintln s d) = True"
| "is_println _ = False"

text \<open>
  The well-typedness of one trigger's configuration, entry by entry: \<open>source\<close> and
  \<open>dest\<close> are strings; \<open>condition\<close>, \<open>before\<close> and \<open>after\<close> are absent or
  of the function type that \<open>Do\<close> asserts, a \<open>nil\<close> function of that type included.
\<close>

fun is_string :: "('a, 'e, 'x) iface option \<Rightarrow> bool" where
  "is_string (Some (VString s)) = True"
| "is_string _ = False"

fun is_condition_or_nil :: "('a, 'e, 'x) iface option \<Rightarrow> bool" where
  "is_condition_or_nil None = True"
| "is_condition_or_nil (Some (VCondition f)) = True"
| "is_condition_or_nil (Some VNilCondition) = True"
| "is_condition_or_nil _ = False"

fun is_hook_or_nil :: "('a, 'e, 'x) iface option \<Rightarrow> bool" where
  "is_hook_or_nil None = True"
| "is_hook_or_nil (Some (VHook f)) = True"
| "is_hook_or_nil (Some VNilHook) = True"
| "is_hook_or_nil _ = False"

definition well_typed :: "('a, 'e, 'x) config \<Rightarrow> bool" where
  "well_typed cfg \<longleftrightarrow>
     is_string (cfg ''source'') \<and> is_string (cfg ''dest'') \<and>
     is_condition_or_nil (cfg ''condition'') \<and>
     is_hook_or_nil (cfg ''before'') \<and> is_hook_or_nil (cfg ''after'')"

text \<open>No entry of the configuration is a \<open>nil\<close> function.\<close>

fun is_nil_function :: "('a, 'e, 'x) iface option \<Rightarrow> bool" where
  "is_nil_function (Some VNilCondition) = True"
| "is_nil_function (Some VNilHook) = True"
| "is_nil_function _ = False"

definition callable :: "('a, 'e, 'x) config \<Rightarrow> bool" where
  "callable cfg \<longleftrightarrow>
     \<not> is_nil_function (cfg ''condition'') \<and> \<not> is_nil_function (cfg ''before'') \<and>
     \<not> is_nil_function (cfg ''after'')"

fun has_uint_ID :: "idfield \<Rightarrow> bool" where
  "has_uint_ID (UintField n) = True"
| "has_uint_ID _ = False"

text \<open>
  No type assertion failed in a result, and \<open>Uint()\<close> panicked exactly when the
  entity has no unsigned \<open>ID\<close> field and the call got as far as the \<open>Println\<close>
  before \<open>log\<close>.
\<close>

definition panics_at_audit :: "('a, 'e, 'x, 'm) stater_scheme \<Rightarrow> ('a, 'e, 'x, 'm) result \<Rightarrow> bool" where
  "panics_at_audit sm r \<longleftrightarrow>
     res_ret r \<noteq> Panic FailedAssertion \<and>
     (res_ret r = Panic NoUintID) =
       (\<not> has_uint_ID (ID sm) \<and> filter is_println (res_calls r) \<noteq> [])"

text \<open>
  A trigger is available in the current state: it is declared, its \<open>source\<close> is a
  string, and the split source list holds the current state.
\<close>

definition available :: "('a, 'e, 'x, 'm) stater_scheme \<Rightarrow> string \<Rightarrow> bool" where
  "available sm trigger =
     (case Triggers sm trigger of
        None \<Rightarrow> False
      | Some config \<Rightarrow>
          (case assert_string (config ''source'') of
             None \<Rightarrow> False
           | Some source \<Rightarrow> GetState sm \<in> sourceStates source))"

definition entry_of ::
  "(string \<Rightarrow> string) \<Rightarrow> ('a, 'e, 'x, 'm) stater_scheme \<Rightarrow> string \<Rightarrow> AvailableTrigger" where
  "entry_of Sprintf sm trigger =
     \<lparr>TranslatedTrigger = Sprintf (StructName sm @ '':'' @ trigger), TriggerName = trigger\<rparr>"

text \<open>
  The \<open>source\<close> of every declared trigger is a string that names no state twice.
\<close>

definition sources_distinct :: "('a, 'e, 'x, 'm) stater_scheme \<Rightarrow> bool" where
  "sources_distinct sm \<longleftrightarrow>
     (\<forall>trigger config. Triggers sm trigger = Some config \<longrightarrow>
        (\<exists>source. config ''source'' = Some (VString source) \<and>
                  distinct (Split source CHR '','')))"

text \<open>
  The entities that calls of \<open>Do\<close> lead to from \<open>sm0\<close>, whatever the trigger, the
  actor, the arguments and the database of each call.
\<close>

inductive reachable ::
  "('a, 'e, 'x, 'm) stater_scheme \<Rightarrow> ('a, 'e, 'x, 'm) stater_scheme \<Rightarrow> bool"
  for sm0 :: "('a, 'e, 'x, 'm) stater_scheme" where
  reachable_start: "reachable sm0 sm0"
| reachable_Do:
    "reachable sm0 sm \<Longrightarrow> sm' = res_entity (Do tx sm trigger userInfoId args) \<Longrightarrow>
     reachable sm0 sm'"

definition state_valid :: "('a, 'e, 'x, 'm) stater_scheme \<Rightarrow> bool" where
  "state_valid sm \<longleftrightarrow> GetState sm \<in> set (States sm)"

definition dests_valid :: "('a, 'e, 'x, 'm) stater_scheme \<Rightarrow> bool" where
  "dests_valid sm \<longleftrightarrow>
     (\<forall>trigger config dest. Triggers sm trigger = Some config \<longrightarrow>
        config ''dest'' = Some (VString dest) \<longrightarrow> dest \<in> set (States sm))"

subsection \<open>An order, as an example\<close>

text \<open>
  An entity type \<open>Order\<close> with the states \<open>Created\<close>, \<open>Paid\<close>, \<open>Shipped\<close> and
  \<open>Cancelled\<close>. The variadic arguments are integers (the amount paid), a foreign
  error is its message, and the rest of the database is a counter that the hooks bump.
\<close>

definition empty_db :: "(string, nat) DB" where
  "empty_db = \<lparr>row = Map.empty, log_table = [], update_error = None, create_error = None,
               now = 1000, other = 0\<rparr>"

definition amount_positive :: "(string, nat) DB \<Rightarrow> int list \<Rightarrow> bool \<times> (string, nat) DB" where
  "amount_positive tx args = (case args of [] \<Rightarrow> (False, tx) | amount # rest \<Rightarrow> (0 < amount, tx))"

definition bump_hook :: "(string, nat) DB \<Rightarrow> int list \<Rightarrow> string error option \<times> (string, nat) DB" where
  "bump_hook tx args = (None, tx\<lparr>other := Suc (other tx)\<rparr>)"

definition boom_hook :: "(string, nat) DB \<Rightarrow> int list \<Rightarrow> string error option \<times> (string, nat) DB" where
  "boom_hook tx args = (Some (Foreign ''boom''), tx)"

definition pay_cfg :: "(int, string, nat) config" where
  "pay_cfg = [''source'' \<mapsto> VString ''Created'', ''dest'' \<mapsto> VString ''Paid'',
              ''condition'' \<mapsto> VCondition amount_positive]"

definition pay_hooked_cfg :: "(int, string, nat) config" where
  "pay_hooked_cfg = pay_cfg(''before'' \<mapsto> VHook bump_hook, ''after'' \<mapsto> VHook bump_hook)"

definition pay_before_boom_cfg :: "(int, string, nat) config" where
  "pay_before_boom_cfg = pay_cfg(''before'' \<mapsto> VHook boom_hook)"

definition pay_after_boom_cfg :: "(int, string, nat) config" where
  "pay_after_boom_cfg = pay_cfg(''after'' \<mapsto> VHook boom_hook)"

definition pay_two_sources_cfg :: "(int, string, nat) config" where
  "pay_two_sources_cfg = [''source'' \<mapsto> VString ''Created,Pending'', ''dest'' \<mapsto> VString ''Paid'']"

definition cancel_cfg :: "(int, string, nat) config" where
  "cancel_cfg = [''source'' \<mapsto> VString ''Created,Paid'', ''dest'' \<mapsto> VString ''Cancelled'']"

definition cancel_twice_cfg :: "(int, string, nat) config" where
  "cancel_twice_cfg = [''source'' \<mapsto> VString ''Created,Created'', ''dest'' \<mapsto> VString ''Cancelled'']"

definition order_of ::
  "(string \<rightharpoonup> (int, string, nat) config) \<Rightarrow> idfield \<Rightarrow> string \<Rightarrow> (int, string, nat) stater" where
  "order_of table ident st =
     \<lparr>StructName = ''Order'', ID = ident,
      States = [''Created'', ''Paid'', ''Shipped'', ''Cancelled''],
      Triggers = table, State = st, UpdatedAt = None\<rparr>"

definition failing_db :: "(string, nat) DB" where
  "failing_db = empty_db\<lparr>update_error := Some (AtExec (Foreign ''disk full''))\<rparr>"

text \<open>
  An order that embeds \<open>gorm.Model\<close>: it has the field \<open>UpdatedAt\<close>, last set at
  time 500.
\<close>

definition model_order :: "string \<Rightarrow> (int, string, nat) stater" where
  "model_order st = (order_of [''pay'' \<mapsto> pay_hooked_cfg] (UintField 42) st)\<lparr>UpdatedAt := Some 500\<rparr>"

text \<open>
  Configurations with an entry of the wrong type, and one with a \<open>nil\<close> function.
\<close>

definition bad_condition_cfg :: "(int, string, nat) config" where
  "bad_condition_cfg = pay_cfg(''condition'' \<mapsto> VString ''amount > 0'')"

definition bad_before_cfg :: "(int, string, nat) config" where
  "bad_before_cfg = pay_cfg(''before'' \<mapsto> VCondition amount_positive)"

definition bad_after_cfg :: "(int, string, nat) config" where
  "bad_after_cfg = pay_cfg(''after'' \<mapsto> VOther)"

definition nil_before_cfg :: "(int, string, nat) config" where
  "nil_before_cfg = pay_cfg(''before'' \<mapsto> VNilHook)"

text \<open>A configuration whose \<open>source\<close> is not a string.\<close>

definition untyped_cfg :: "(int, string, nat) config" where
  "untyped_cfg = [''source'' \<mapsto> VOther, ''dest'' \<mapsto> VString ''Paid'']"

definition translate :: "string \<Rightarrow> string" where
  "translate key = ''<'' @ key @ ''>''"

section \<open>Properties\<close>

subsection \<open>The source list\<close>

lemma Split_not_Nil: "Split s sep \<noteq> []"
  by (induction s) (auto split: list.splits)

text \<open>
  After the loop, \<open>canDo\<close> says whether the current state occurs in the list, and
  \<open>src\<close> is the element the loop visited last.
\<close>

lemma scan_sources_eq:
  "scan_sources ss cur (c, s0) = (c \<or> cur \<in> set ss, if ss = [] then s0 else last ss)"
  by (induction ss arbitrary: c s0) auto

lemma scan_Split:
  "scan_sources (Split source CHR '','') cur (False, []) =
     (cur \<in> sourceStates source, last (Split source CHR '',''))"
  by (simp add: scan_sources_eq Split_not_Nil sourceStates_def)

subsection \<open>The stages of \<open>Do\<close>\<close>

lemma Do_declared:
  assumes "Triggers sm trigger = Some cfg"
    and "cfg ''source'' = Some (VString source)"
    and "cfg ''dest'' = Some (VString dest)"
  shows "Do tx sm trigger userInfoId args =
     (if State sm \<in> sourceStates source
      then Do_condition tx sm trigger userInfoId args (cfg ''condition'') (cfg ''before'')
             (cfg ''after'') (last (Split source CHR '','')) dest
      else \<lparr>res_ret = Return (Some (ErrorsNew
               (''can not do trigger: '' @ trigger @ '', current state: '' @ State sm))),
            res_entity = sm, res_db = tx, res_calls = []\<rparr>)"
  using assms by (simp add: Do_def scan_Split GetState_def)

lemma Do_condition_passes:
  assumes "guard_passes cfg tx args tx1"
  shows "Do_condition tx sm trigger userInfoId args (cfg ''condition'') b a src dest =
         Do_before tx1 sm trigger userInfoId args b a src dest (guard_calls cfg args)"
  using assms
  by (auto simp: guard_passes_def guard_calls_def Do_condition_def split: option.splits)

lemma Do_before_succeeds:
  assumes "hook_succeeds b tx1 args tx2"
  shows "Do_before tx1 sm trigger userInfoId args b a src dest calls =
         Do_persist tx2 sm trigger userInfoId args a src dest
           (calls @ hook_calls b (CallBefore args))"
  using assms
  by (auto simp: hook_succeeds_def hook_calls_def Do_before_def split: option.splits)

text \<open>What an update of the column \<open>state\<close> assigns and writes.\<close>

lemma SetState_frame [simp]:
  "State (SetState sm dest) = dest"
  "ID (SetState sm dest) = ID sm"
  "StructName (SetState sm dest) = StructName sm"
  "States (SetState sm dest) = States sm"
  "Triggers (SetState sm dest) = Triggers sm"
  "UpdatedAt (SetState sm dest) = UpdatedAt sm"
  by (simp_all add: SetState_def)

lemma assigned_state [simp]:
  "State (assigned tx obj ''state'' v) = v"
  "ID (assigned tx obj column v) = ID obj"
  "StructName (assigned tx obj column v) = StructName obj"
  "States (assigned tx obj column v) = States obj"
  "Triggers (assigned tx obj column v) = Triggers obj"
  by (simp_all add: assigned_def Let_def)

lemma assigned_SetState:
  "assigned tx (SetState sm dest) ''state'' dest =
     (if UpdatedAt sm = None then sm\<lparr>State := dest\<rparr>
      else sm\<lparr>State := dest, UpdatedAt := Some (now tx)\<rparr>)"
  by (simp add: assigned_def tracks_time_def SetState_def Let_def)

lemma written_SetState:
  "written tx (SetState sm dest) ''state'' dest =
     (if UpdatedAt sm = None then tx\<lparr>row := (row tx)(''state'' \<mapsto> TextVal dest)\<rparr>
      else tx\<lparr>row := (row tx)(''state'' \<mapsto> TextVal dest,
                                  ''updated_at'' \<mapsto> TimeVal (now tx))\<rparr>)"
  by (simp add: written_def tracks_time_def SetState_def)

lemma written_frame [simp]:
  "log_table (written tx obj column v) = log_table tx"
  "update_error (written tx obj column v) = update_error tx"
  "create_error (written tx obj column v) = create_error tx"
  "now (written tx obj column v) = now tx"
  "other (written tx obj column v) = other tx"
  "row (written tx obj column v) column = Some (TextVal v)"
  by (simp_all add: written_def tracks_time_def)

lemma written_other_columns:
  assumes "c \<noteq> column" and "c \<noteq> ''updated_at''"
  shows "row (written tx obj column v) c = row tx c"
  using assms by (simp add: written_def)

lemma Do_persist_fails:
  assumes "update_error tx2 = Some fault"
  shows "Do_persist tx2 sm trigger userInfoId args a src dest calls =
         \<lparr>res_ret = Return (Some (fault_error fault)),
          res_entity = (case fault of
                          BeforeAssign err \<Rightarrow> SetState sm dest
                        | AtExec err \<Rightarrow> assigned tx2 (SetState sm dest) ''state'' dest),
          res_db = tx2,
          res_calls = calls @ [CallSetState dest, CallUpdate ''state'' dest]\<rparr>"
  using assms by (cases fault) (simp_all add: Do_persist_def Update_def Let_def)

lemma Do_persist_ok:
  assumes "update_error tx2 = None"
  shows "Do_persist tx2 sm trigger userInfoId args a src dest calls =
         Do_after (written tx2 (SetState sm dest) ''state'' dest)
           (assigned tx2 (SetState sm dest) ''state'' dest)
           trigger userInfoId args a src dest
           (calls @ [CallSetState dest, CallUpdate ''state'' dest])"
  using assms by (simp add: Do_persist_def Update_def Let_def)

lemma Do_after_succeeds:
  assumes "hook_succeeds a tx3 args tx4"
  shows "Do_after tx3 sm trigger userInfoId args a src dest calls =
         log tx4 sm trigger src dest userInfoId
           (calls @ hook_calls a (CallAfter args) @ [CallPrintln src dest])"
  using assms
  by (auto simp: hook_succeeds_def hook_calls_def Do_after_def split: option.splits)

lemma Do_reaches_persist:
  assumes "Triggers sm trigger = Some cfg"
    and "cfg ''source'' = Some (VString source)"
    and "cfg ''dest'' = Some (VString dest)"
    and "GetState sm \<in> sourceStates source"
    and "guard_passes cfg tx args tx1"
    and "hook_succeeds (cfg ''before'') tx1 args tx2"
  shows "Do tx sm trigger userInfoId args =
         Do_persist tx2 sm trigger userInfoId args (cfg ''after'') (last (Split source CHR '','')) dest
           (guard_calls cfg args @ hook_calls (cfg ''before'') (CallBefore args))"
  using assms
  by (simp add: Do_declared GetState_def Do_condition_passes Do_before_succeeds)

lemma log_ok:
  assumes "ID sm = UintField n" and "create_error tx = None"
  shows "log tx sm trigger src dest userInfoId calls =
     \<lparr>res_ret = Return None, res_entity = sm,
      res_db = tx\<lparr>log_table := log_table tx @
        [\<lparr>ObjectId = n, ObjectStruct = StructName sm, Trigger = trigger, Source = src,
          Dest = dest, OperatorId = userInfoId\<rparr>]\<rparr>,
      res_calls = calls @
        [CallCreate \<lparr>ObjectId = n, ObjectStruct = StructName sm, Trigger = trigger, Source = src,
          Dest = dest, OperatorId = userInfoId\<rparr>]\<rparr>"
  using assms by (simp add: log_def Create_def Let_def)

text \<open>
  The call that goes through: the audit row takes its \<open>Source\<close> from the variable
  \<open>src\<close>, which holds the last element of the split source list.
\<close>

lemma Do_succeeds:
  assumes "Triggers sm trigger = Some cfg"
    and "cfg ''source'' = Some (VString source)"
    and "cfg ''dest'' = Some (VString dest)"
    and "GetState sm \<in> sourceStates source"
    and "guard_passes cfg tx args tx1"
    and "hook_succeeds (cfg ''before'') tx1 args tx2"
    and "update_error tx2 = None"
    and "hook_succeeds (cfg ''after'') (written tx2 (SetState sm dest) ''state'' dest) args tx4"
    and "ID sm = UintField n"
    and "create_error tx4 = None"
  shows "Do tx sm trigger userInfoId args =
     \<lparr>res_ret = Return None, res_entity = assigned tx2 (SetState sm dest) ''state'' dest,
      res_db = tx4\<lparr>log_table := log_table tx4 @
        [\<lparr>ObjectId = n, ObjectStruct = StructName sm, Trigger = trigger,
          Source = last (Split source CHR '',''), Dest = dest, OperatorId = userInfoId\<rparr>]\<rparr>,
      res_calls = guard_calls cfg args @ hook_calls (cfg ''before'') (CallBefore args) @
        [CallSetState dest, CallUpdate ''state'' dest] @
        hook_calls (cfg ''after'') (CallAfter args) @
        [CallPrintln (last (Split source CHR '','')) dest,
         CallCreate \<lparr>ObjectId = n, ObjectStruct = StructName sm, Trigger = trigger,
          Source = last (Split source CHR '',''), Dest = dest, OperatorId = userInfoId\<rparr>]\<rparr>"
  using assms
  by (simp add: Do_reaches_persist Do_persist_ok Do_after_succeeds log_ok)

lemmas example_defs = order_of_def pay_cfg_def empty_db_def amount_positive_def

lemmas update_defs = SetState_def assigned_def written_def tracks_time_def Update_def

lemmas vocabulary_defs = GetState_def sourceStates_def guard_passes_def guard_calls_def
  hook_succeeds_def hook_calls_def

subsection \<open>What the stages leave alone\<close>

lemma assert_string_Some: "assert_string v = Some s \<longleftrightarrow> v = Some (VString s)"
  by (cases "(v)" rule: assert_string.cases) auto

lemma is_string_iff: "is_string v \<longleftrightarrow> (\<exists>s. v = Some (VString s))"
  by (cases "(v)" rule: is_string.cases) auto

lemma is_string_assert: "is_string v \<longleftrightarrow> assert_string v \<noteq> None"
  by (cases "(v)" rule: is_string.cases) auto

lemma guard_calls_no_write [simp]:
  "filter is_update (guard_calls cfg args) = []"
  "filter is_println (guard_calls cfg args) = []"
  by (simp_all add: guard_calls_def split: option.splits)

lemma hook_calls_no_write [simp]:
  "filter is_update (hook_calls h (CallBefore args)) = []"
  "filter is_update (hook_calls h (CallAfter args)) = []"
  "filter is_println (hook_calls h (CallBefore args)) = []"
  "filter is_println (hook_calls h (CallAfter args)) = []"
  by (simp_all add: hook_calls_def split: option.splits)

lemma log_frame:
  "res_entity (log tx sm trigger src dest userInfoId calls) = sm"
  "filter is_update (res_calls (log tx sm trigger src dest userInfoId calls)) = filter is_update calls"
  "filter is_println (res_calls (log tx sm trigger src dest userInfoId calls)) = filter is_println calls"
  by (simp_all add: log_def Create_def Let_def split: idfield.splits option.splits)

lemma log_Panic:
  "res_ret (log tx sm trigger src dest userInfoId calls) = Panic p \<longleftrightarrow>
     p = NoUintID \<and> \<not> has_uint_ID (ID sm)"
  by (auto simp: log_def Create_def Let_def split: idfield.splits option.splits)

lemma Do_after_frame:
  "res_entity (Do_after tx sm trigger userInfoId args a src dest calls) = sm"
  "filter is_update (res_calls (Do_after tx sm trigger userInfoId args a src dest calls)) =
     filter is_update calls"
  by (simp_all add: Do_after_def log_frame split: option.splits prod.splits)

text \<open>
  The persistence step leaves the entity with the state \<open>dest\<close>, and with no other
  field changed but \<open>UpdatedAt\<close>.
\<close>

lemma SetState_ex:
  "\<exists>u. SetState sm dest = sm\<lparr>State := dest, UpdatedAt := u\<rparr>"
  by (rule exI [of _ "UpdatedAt sm"]) (simp add: SetState_def)

lemma assigned_SetState_ex:
  "\<exists>u. assigned tx (SetState sm dest) ''state'' dest = sm\<lparr>State := dest, UpdatedAt := u\<rparr>"
proof (cases "UpdatedAt sm = None")
  case True
  then have "assigned tx (SetState sm dest) ''state'' dest =
      sm\<lparr>State := dest, UpdatedAt := UpdatedAt sm\<rparr>"
    by (simp add: assigned_SetState)
  then show ?thesis by blast
next
  case False
  then have "assigned tx (SetState sm dest) ''state'' dest =
      sm\<lparr>State := dest, UpdatedAt := Some (now tx)\<rparr>"
    by (simp add: assigned_SetState)
  then show ?thesis by blast
qed

lemma Do_persist_entity:
  "\<exists>u. res_entity (Do_persist tx sm trigger userInfoId args a src dest calls) =
         sm\<lparr>State := dest, UpdatedAt := u\<rparr>"
proof (cases "update_error tx")
  case None
  then show ?thesis
    by (simp add: Do_persist_ok Do_after_frame assigned_SetState_ex)
next
  case (Some fault)
  then show ?thesis
    by (cases fault) (simp_all add: Do_persist_fails assigned_SetState_ex SetState_ex)
qed

lemma Do_before_entity:
  "res_entity (Do_before tx sm trigger userInfoId args b a src dest calls) = sm \<or>
   (\<exists>u. res_entity (Do_before tx sm trigger userInfoId args b a src dest calls) =
          sm\<lparr>State := dest, UpdatedAt := u\<rparr>)"
  using Do_persist_entity [of _ sm trigger userInfoId args a src dest]
  by (simp add: Do_before_def split: option.splits prod.splits)

lemma Do_condition_entity:
  "res_entity (Do_condition tx sm trigger userInfoId args c b a src dest) = sm \<or>
   (\<exists>u. res_entity (Do_condition tx sm trigger userInfoId args c b a src dest) =
          sm\<lparr>State := dest, UpdatedAt := u\<rparr>)"
  using Do_before_entity [of _ sm trigger userInfoId args b a src dest]
  by (simp add: Do_condition_def split: option.splits prod.splits bool.splits)

lemma Do_entity:
  "res_entity (Do tx sm trigger userInfoId args) = sm \<or>
   (\<exists>cfg dest u. Triggers sm trigger = Some cfg \<and> cfg ''dest'' = Some (VString dest) \<and>
      res_entity (Do tx sm trigger userInfoId args) = sm\<lparr>State := dest, UpdatedAt := u\<rparr>)"
proof (cases "Triggers sm trigger")
  case None
  then show ?thesis by (simp add: Do_def)
next
  case (Some cfg)
  show ?thesis
  proof (cases "assert_string (cfg ''source'')")
    case None
    with Some show ?thesis by (simp add: Do_def)
  next
    case src: (Some source)
    show ?thesis
    proof (cases "assert_string (cfg ''dest'')")
      case None
      with Some src show ?thesis by (simp add: Do_def)
    next
      case dst: (Some dest)
      have "res_entity (Do tx sm trigger userInfoId args) = sm \<or>
          (\<exists>u. res_entity (Do tx sm trigger userInfoId args) =
                 sm\<lparr>State := dest, UpdatedAt := u\<rparr>)"
        using Some src dst
          Do_condition_entity [of tx sm trigger userInfoId args "cfg ''condition''"
            "cfg ''before''" "cfg ''after''" "last (Split source CHR '','')" dest]
        by (simp add: Do_declared assert_string_Some)
      with Some dst show ?thesis by (auto simp: assert_string_Some)
    qed
  qed
qed

subsection \<open>Rejections that leave everything as it was\<close>

text \<open>
  Claim C8. A call of \<open>Do\<close> with a trigger name that is not a key of the trigger table
  returns the error \<open>can not do trigger: <name>\<close>; the entity, with its state, and
  the database, with its audit table, are as before, and no hook, no update and no insert
  was called.
\<close>

theorem Do_unknown_trigger:
  assumes "Triggers sm trigger = None"
  shows "Do tx sm trigger userInfoId args =
     \<lparr>res_ret = Return (Some (ErrorsNew (''can not do trigger: '' @ trigger))),
      res_entity = sm, res_db = tx, res_calls = []\<rparr>"
  using assms by (simp add: Do_def)

theorem Do_unknown_trigger_witness:
  "Triggers (order_of [''pay'' \<mapsto> pay_cfg] (UintField 42) ''Created'') ''ship'' = None \<and>
   Do empty_db (order_of [''pay'' \<mapsto> pay_cfg] (UintField 42) ''Created'') ''ship'' 7 [10] =
     \<lparr>res_ret = Return (Some (ErrorsNew ''can not do trigger: ship'')),
      res_entity = order_of [''pay'' \<mapsto> pay_cfg] (UintField 42) ''Created'',
      res_db = empty_db, res_calls = []\<rparr>"
  using Do_unknown_trigger [of "order_of [''pay'' \<mapsto> pay_cfg] (UintField 42) ''Created''"
      "''ship''" empty_db 7 "[10]"]
  by (simp add: order_of_def)

text \<open>
  Claim C9. A call of \<open>Do\<close> with a declared trigger (its \<open>source\<close> and \<open>dest\<close>
  are strings) whose source states do not contain the current state returns the error
  \<open>can not do trigger: <name>, current state: <state>\<close>; the entity and the database
  are as before, and neither the guard nor a hook, an update or an insert was called.
\<close>

theorem Do_invalid_transition:
  assumes "Triggers sm trigger = Some cfg"
    and "cfg ''source'' = Some (VString source)"
    and "cfg ''dest'' = Some (VString dest)"
    and "GetState sm \<notin> sourceStates source"
  shows "Do tx sm trigger userInfoId args =
     \<lparr>res_ret = Return (Some (ErrorsNew
        (''can not do trigger: '' @ trigger @ '', current state: '' @ GetState sm))),
      res_entity = sm, res_db = tx, res_calls = []\<rparr>"
  using assms by (simp add: Do_declared GetState_def)

theorem Do_invalid_transition_witness:
  "Triggers (order_of [''pay'' \<mapsto> pay_cfg] (UintField 42) ''Shipped'') ''pay'' = Some pay_cfg \<and>
   pay_cfg ''source'' = Some (VString ''Created'') \<and>
   pay_cfg ''dest'' = Some (VString ''Paid'') \<and>
   GetState (order_of [''pay'' \<mapsto> pay_cfg] (UintField 42) ''Shipped'') \<notin> sourceStates ''Created'' \<and>
   Do empty_db (order_of [''pay'' \<mapsto> pay_cfg] (UintField 42) ''Shipped'') ''pay'' 7 [10] =
     \<lparr>res_ret = Return (Some (ErrorsNew ''can not do trigger: pay, current state: Shipped'')),
      res_entity = order_of [''pay'' \<mapsto> pay_cfg] (UintField 42) ''Shipped'',
      res_db = empty_db, res_calls = []\<rparr>"
  using Do_invalid_transition [of "order_of [''pay'' \<mapsto> pay_cfg] (UintField 42) ''Shipped''"
      "''pay''" pay_cfg "''Created''" "''Paid''" empty_db 7 "[10]"]
  by (simp add: order_of_def pay_cfg_def GetState_def sourceStates_def)

text \<open>
  Claim C3. When the trigger is declared, the current state is one of its source states
  and its guard answers \<open>false\<close>, \<open>Do\<close> returns \<open>nil\<close>. The entity is unchanged,
  the database is as the guard left it, and the guard is the only call that \<open>Do\<close>
  made: no hook ran, the state was neither set nor updated, and no audit row was
  inserted.
\<close>

theorem Do_guard_rejects:
  assumes "Triggers sm trigger = Some cfg"
    and "cfg ''source'' = Some (VString source)"
    and "cfg ''dest'' = Some (VString dest)"
    and "GetState sm \<in> sourceStates source"
    and "cfg ''condition'' = Some (VCondition g)"
    and "g tx args = (False, tx')"
  shows "Do tx sm trigger userInfoId args =
     \<lparr>res_ret = Return None, res_entity = sm, res_db = tx', res_calls = [CallCondition args]\<rparr>"
  using assms by (simp add: Do_declared GetState_def Do_condition_def)

theorem Do_guard_rejects_witness:
  "Triggers (order_of [''pay'' \<mapsto> pay_hooked_cfg] (UintField 42) ''Created'') ''pay'' =
     Some pay_hooked_cfg \<and>
   pay_hooked_cfg ''source'' = Some (VString ''Created'') \<and>
   pay_hooked_cfg ''dest'' = Some (VString ''Paid'') \<and>
   GetState (order_of [''pay'' \<mapsto> pay_hooked_cfg] (UintField 42) ''Created'')
     \<in> sourceStates ''Created'' \<and>
   pay_hooked_cfg ''condition'' = Some (VCondition amount_positive) \<and>
   amount_positive empty_db [0] = (False, empty_db) \<and>
   Do empty_db (order_of [''pay'' \<mapsto> pay_hooked_cfg] (UintField 42) ''Created'') ''pay'' 7 [0] =
     \<lparr>res_ret = Return None,
      res_entity = order_of [''pay'' \<mapsto> pay_hooked_cfg] (UintField 42) ''Created'',
      res_db = empty_db, res_calls = [CallCondition [0]]\<rparr>"
  using Do_guard_rejects [of "order_of [''pay'' \<mapsto> pay_hooked_cfg] (UintField 42) ''Created''"
      "''pay''" pay_hooked_cfg "''Created''" "''Paid''" amount_positive empty_db "[0]" empty_db 7]
  by (simp add: order_of_def pay_hooked_cfg_def pay_cfg_def GetState_def sourceStates_def
      amount_positive_def)

subsection \<open>Failing hooks\<close>

text \<open>
  Claim C5, as amended. When the trigger is declared, the current state is one of its
  source states, the guard is absent or answers \<open>true\<close>, and the before-hook returns an
  error, \<open>Do\<close> returns that very error value, with nothing added to it. The entity is
  unchanged, the database is as the before-hook left it, and after the guard the
  before-hook is the only call: the state was neither set nor updated and no audit row
  was inserted.
\<close>

theorem Do_before_hook_fails:
  assumes "Triggers sm trigger = Some cfg"
    and "cfg ''source'' = Some (VString source)"
    and "cfg ''dest'' = Some (VString dest)"
    and "GetState sm \<in> sourceStates source"
    and "guard_passes cfg tx args tx1"
    and "cfg ''before'' = Some (VHook h)"
    and "h tx1 args = (Some err, tx2)"
  shows "Do tx sm trigger userInfoId args =
     \<lparr>res_ret = Return (Some err), res_entity = sm, res_db = tx2,
      res_calls = guard_calls cfg args @ [CallBefore args]\<rparr>"
  using assms
  by (simp add: Do_declared GetState_def Do_condition_passes Do_before_def)

theorem Do_before_hook_fails_witness:
  "Triggers (order_of [''pay'' \<mapsto> pay_before_boom_cfg] (UintField 42) ''Created'') ''pay'' =
     Some pay_before_boom_cfg \<and>
   pay_before_boom_cfg ''source'' = Some (VString ''Created'') \<and>
   pay_before_boom_cfg ''dest'' = Some (VString ''Paid'') \<and>
   GetState (order_of [''pay'' \<mapsto> pay_before_boom_cfg] (UintField 42) ''Created'')
     \<in> sourceStates ''Created'' \<and>
   guard_passes pay_before_boom_cfg empty_db [10] empty_db \<and>
   pay_before_boom_cfg ''before'' = Some (VHook boom_hook) \<and>
   boom_hook empty_db [10] = (Some (Foreign ''boom''), empty_db) \<and>
   Do empty_db (order_of [''pay'' \<mapsto> pay_before_boom_cfg] (UintField 42) ''Created'') ''pay'' 7 [10] =
     \<lparr>res_ret = Return (Some (Foreign ''boom'')),
      res_entity = order_of [''pay'' \<mapsto> pay_before_boom_cfg] (UintField 42) ''Created'',
      res_db = empty_db, res_calls = [CallCondition [10], CallBefore [10]]\<rparr>"
  using Do_before_hook_fails [of
      "order_of [''pay'' \<mapsto> pay_before_boom_cfg] (UintField 42) ''Created''" "''pay''"
      pay_before_boom_cfg "''Created''" "''Paid''" empty_db "[10]" empty_db boom_hook
      "Foreign ''boom''" empty_db 7]
  by (simp add: example_defs pay_before_boom_cfg_def boom_hook_def vocabulary_defs)

text \<open>
  Claim C5: the returned error carries no mark of the phase. A failing before-hook and a
  failing after-hook that return the same error make \<open>Do\<close> return the same value.
\<close>

theorem before_failure_not_tagged:
  "res_ret (Do empty_db (order_of [''pay'' \<mapsto> pay_before_boom_cfg] (UintField 42) ''Created'')
             ''pay'' 7 [10]) = Return (Some (Foreign ''boom'')) \<and>
   res_ret (Do empty_db (order_of [''pay'' \<mapsto> pay_after_boom_cfg] (UintField 42) ''Created'')
             ''pay'' 7 [10]) = Return (Some (Foreign ''boom''))"
  by (simp add: Do_def scan_Split Do_condition_def Do_before_def Do_persist_def Do_after_def
      update_defs Let_def
        example_defs pay_before_boom_cfg_def pay_after_boom_cfg_def boom_hook_def vocabulary_defs)

text \<open>
  Claim C4, as amended. When \<open>Do\<close> reaches the after-hook (trigger declared, state
  among the source states, guard absent or passing, before-hook absent or succeeding,
  update of the column \<open>state\<close> succeeded) and the after-hook returns an error,
  \<open>Do\<close> returns that very error value, with nothing added to it. The entity's state is
  \<open>dest\<close>, the after-hook ran on the database whose column \<open>state\<close> holds
  \<open>dest\<close>, and no audit row was inserted: the after-hook is the last call. (The
  entity and the database are those that the update left: \<open>assigned\<close> and
  \<open>written\<close>.)
\<close>

theorem Do_after_hook_fails:
  assumes "Triggers sm trigger = Some cfg"
    and "cfg ''source'' = Some (VString source)"
    and "cfg ''dest'' = Some (VString dest)"
    and "GetState sm \<in> sourceStates source"
    and "guard_passes cfg tx args tx1"
    and "hook_succeeds (cfg ''before'') tx1 args tx2"
    and "update_error tx2 = None"
    and "cfg ''after'' = Some (VHook h)"
    and "h (written tx2 (SetState sm dest) ''state'' dest) args = (Some err, tx4)"
  shows "Do tx sm trigger userInfoId args =
     \<lparr>res_ret = Return (Some err),
      res_entity = assigned tx2 (SetState sm dest) ''state'' dest, res_db = tx4,
      res_calls = guard_calls cfg args @ hook_calls (cfg ''before'') (CallBefore args) @
        [CallSetState dest, CallUpdate ''state'' dest, CallAfter args]\<rparr> \<and>
     State (res_entity (Do tx sm trigger userInfoId args)) = dest \<and>
     (UpdatedAt sm = None \<longrightarrow>
        res_entity (Do tx sm trigger userInfoId args) = sm\<lparr>State := dest\<rparr>) \<and>
     row (written tx2 (SetState sm dest) ''state'' dest) ''state'' = Some (TextVal dest)"
  using assms
  by (simp add: Do_reaches_persist Do_persist_ok Do_after_def assigned_SetState)

theorem Do_after_hook_fails_witness:
  "Triggers (order_of [''pay'' \<mapsto> pay_after_boom_cfg] (UintField 42) ''Created'') ''pay'' =
     Some pay_after_boom_cfg \<and>
   pay_after_boom_cfg ''source'' = Some (VString ''Created'') \<and>
   pay_after_boom_cfg ''dest'' = Some (VString ''Paid'') \<and>
   GetState (order_of [''pay'' \<mapsto> pay_after_boom_cfg] (UintField 42) ''Created'')
     \<in> sourceStates ''Created'' \<and>
   guard_passes pay_after_boom_cfg empty_db [10] empty_db \<and>
   hook_succeeds (pay_after_boom_cfg ''before'') empty_db [10] empty_db \<and>
   update_error empty_db = None \<and>
   pay_after_boom_cfg ''after'' = Some (VHook boom_hook) \<and>
   boom_hook (written empty_db
       (SetState (order_of [''pay'' \<mapsto> pay_after_boom_cfg] (UintField 42) ''Created'') ''Paid'')
       ''state'' ''Paid'') [10] =
     (Some (Foreign ''boom''), empty_db\<lparr>row := [''state'' \<mapsto> TextVal ''Paid'']\<rparr>) \<and>
   Do empty_db (order_of [''pay'' \<mapsto> pay_after_boom_cfg] (UintField 42) ''Created'') ''pay'' 7 [10] =
     \<lparr>res_ret = Return (Some (Foreign ''boom'')),
      res_entity = order_of [''pay'' \<mapsto> pay_after_boom_cfg] (UintField 42) ''Paid'',
      res_db = empty_db\<lparr>row := [''state'' \<mapsto> TextVal ''Paid'']\<rparr>,
      res_calls = [CallCondition [10], CallSetState ''Paid'', CallUpdate ''state'' ''Paid'',
                   CallAfter [10]]\<rparr>"
  using Do_after_hook_fails [of
      "order_of [''pay'' \<mapsto> pay_after_boom_cfg] (UintField 42) ''Created''" "''pay''"
      pay_after_boom_cfg "''Created''" "''Paid''" empty_db "[10]" empty_db empty_db boom_hook
      "Foreign ''boom''" "empty_db\<lparr>row := [''state'' \<mapsto> TextVal ''Paid'']\<rparr>" 7]
  by (simp add: example_defs pay_after_boom_cfg_def boom_hook_def update_defs
      vocabulary_defs)

text \<open>
  Claim C4: the returned error does not tell the phase. The call whose after-hook fails
  returns the same value as the call whose before-hook fails with the same error.
\<close>

theorem after_failure_not_tagged:
  "res_ret (Do empty_db (order_of [''pay'' \<mapsto> pay_after_boom_cfg] (UintField 42) ''Created'')
             ''pay'' 7 [10]) =
   res_ret (Do empty_db (order_of [''pay'' \<mapsto> pay_before_boom_cfg] (UintField 42) ''Created'')
             ''pay'' 7 [10])"
  by (simp add: Do_def scan_Split Do_condition_def Do_before_def Do_persist_def Do_after_def
      update_defs Let_def
        example_defs pay_before_boom_cfg_def pay_after_boom_cfg_def boom_hook_def vocabulary_defs)

subsection \<open>The audit row of a call that goes through\<close>

text \<open>
  Claim C1, at an input where the code departs from it. The trigger \<open>pay\<close> has the
  source list \<open>Created,Pending\<close> and no guard or hooks; the order is in the state
  \<open>Created\<close>. \<open>Do\<close> returns \<open>nil\<close>, the state becomes \<open>Paid\<close>, and one
  audit row is inserted, but its \<open>Source\<close> is \<open>Pending\<close>, the last element of
  the list, not the state the order was in.
\<close>

theorem Do_audit_source_is_last_listed:
  "GetState (order_of [''pay'' \<mapsto> pay_two_sources_cfg] (UintField 42) ''Created'') = ''Created'' \<and>
   Do empty_db (order_of [''pay'' \<mapsto> pay_two_sources_cfg] (UintField 42) ''Created'') ''pay'' 7 [10] =
     \<lparr>res_ret = Return None,
      res_entity = order_of [''pay'' \<mapsto> pay_two_sources_cfg] (UintField 42) ''Paid'',
      res_db = empty_db\<lparr>row := [''state'' \<mapsto> TextVal ''Paid''],
        log_table := [\<lparr>ObjectId = 42, ObjectStruct = ''Order'', Trigger = ''pay'',
                       Source = ''Pending'', Dest = ''Paid'', OperatorId = 7\<rparr>]\<rparr>,
      res_calls = [CallSetState ''Paid'', CallUpdate ''state'' ''Paid'',
                   CallPrintln ''Pending'' ''Paid'',
                   CallCreate \<lparr>ObjectId = 42, ObjectStruct = ''Order'', Trigger = ''pay'',
                       Source = ''Pending'', Dest = ''Paid'', OperatorId = 7\<rparr>]\<rparr>"
  by (simp add: Do_def scan_Split Do_condition_def Do_before_def Do_persist_def Do_after_def
      update_defs log_def Create_def Let_def
        example_defs pay_two_sources_cfg_def vocabulary_defs)

subsection \<open>Persistence\<close>

text \<open>
  Claim C6, as amended. Whenever \<open>Do\<close> reaches the persistence step (trigger
  declared, state among the source states, guard absent or passing, before-hook absent or
  succeeding), the one update it requests from the handle is that of the column
  \<open>state\<close> to \<open>dest\<close>, with the associations left out. For an entity without
  the field \<open>UpdatedAt\<close> this changes \<open>State\<close> in memory and the column
  \<open>state\<close> of its row, and nothing else. For an entity with that field, as every
  entity embedding \<open>gorm.Model\<close> is, gorm's \<open>Update\<close> also sets
  \<open>UpdatedAt\<close> in memory and the column \<open>updated_at\<close> of the row to the
  current time; every other field and column stays as it was. If the update fails,
  \<open>Do\<close> returns the handle's error, the entity keeps the state \<open>dest\<close>, the
  database is as it was before the update, and nothing was inserted.
\<close>

theorem Do_persists_state_and_update_time:
  assumes "Triggers sm trigger = Some cfg"
    and "cfg ''source'' = Some (VString source)"
    and "cfg ''dest'' = Some (VString dest)"
    and "GetState sm \<in> sourceStates source"
    and "guard_passes cfg tx args tx1"
    and "hook_succeeds (cfg ''before'') tx1 args tx2"
  shows "(res_entity (Do tx sm trigger userInfoId args) = sm\<lparr>State := dest\<rparr> \<or>
      res_entity (Do tx sm trigger userInfoId args) =
        sm\<lparr>State := dest, UpdatedAt := Some (now tx2)\<rparr>) \<and>
     (UpdatedAt sm = None \<longrightarrow>
        res_entity (Do tx sm trigger userInfoId args) = sm\<lparr>State := dest\<rparr>) \<and>
     filter is_update (res_calls (Do tx sm trigger userInfoId args)) =
       [CallUpdate ''state'' dest] \<and>
     (\<forall>fault. update_error tx2 = Some fault \<longrightarrow>
        res_ret (Do tx sm trigger userInfoId args) = Return (Some (fault_error fault)) \<and>
        State (res_entity (Do tx sm trigger userInfoId args)) = dest \<and>
        res_db (Do tx sm trigger userInfoId args) = tx2 \<and>
        res_calls (Do tx sm trigger userInfoId args) =
          guard_calls cfg args @ hook_calls (cfg ''before'') (CallBefore args) @
          [CallSetState dest, CallUpdate ''state'' dest]) \<and>
     (update_error tx2 = None \<longrightarrow>
        Do tx sm trigger userInfoId args =
          Do_after (written tx2 (SetState sm dest) ''state'' dest)
            (assigned tx2 (SetState sm dest) ''state'' dest)
            trigger userInfoId args (cfg ''after'') (last (Split source CHR '','')) dest
            (guard_calls cfg args @ hook_calls (cfg ''before'') (CallBefore args) @
             [CallSetState dest, CallUpdate ''state'' dest]) \<and>
        res_entity (Do tx sm trigger userInfoId args) =
          assigned tx2 (SetState sm dest) ''state'' dest \<and>
        assigned tx2 (SetState sm dest) ''state'' dest =
          (if UpdatedAt sm = None then sm\<lparr>State := dest\<rparr>
           else sm\<lparr>State := dest, UpdatedAt := Some (now tx2)\<rparr>) \<and>
        written tx2 (SetState sm dest) ''state'' dest =
          (if UpdatedAt sm = None then tx2\<lparr>row := (row tx2)(''state'' \<mapsto> TextVal dest)\<rparr>
           else tx2\<lparr>row := (row tx2)(''state'' \<mapsto> TextVal dest,
                                        ''updated_at'' \<mapsto> TimeVal (now tx2))\<rparr>))"
proof -
  let ?pre = "guard_calls cfg args @ hook_calls (cfg ''before'') (CallBefore args)"
  let ?r = "Do tx sm trigger userInfoId args"
  let ?sm' = "assigned tx2 (SetState sm dest) ''state'' dest"
  let ?tx' = "written tx2 (SetState sm dest) ''state'' dest"
  have reach: "?r =
      Do_persist tx2 sm trigger userInfoId args (cfg ''after'') (last (Split source CHR '','')) dest ?pre"
    using assms by (rule Do_reaches_persist)
  have a: "?sm' = (if UpdatedAt sm = None then sm\<lparr>State := dest\<rparr>
           else sm\<lparr>State := dest, UpdatedAt := Some (now tx2)\<rparr>)"
    by (rule assigned_SetState)
  have w: "?tx' = (if UpdatedAt sm = None then tx2\<lparr>row := (row tx2)(''state'' \<mapsto> TextVal dest)\<rparr>
           else tx2\<lparr>row := (row tx2)(''state'' \<mapsto> TextVal dest,
                                        ''updated_at'' \<mapsto> TimeVal (now tx2))\<rparr>)"
    by (rule written_SetState)
  have s: "SetState sm dest = sm\<lparr>State := dest\<rparr>"
    by (simp add: SetState_def)
  have main: "(res_entity ?r = SetState sm dest \<or> res_entity ?r = ?sm') \<and>
        filter is_update (res_calls ?r) = [CallUpdate ''state'' dest] \<and>
        (\<forall>fault. update_error tx2 = Some fault \<longrightarrow>
          res_ret ?r = Return (Some (fault_error fault)) \<and>
          State (res_entity ?r) = dest \<and> res_db ?r = tx2 \<and>
          res_calls ?r = ?pre @ [CallSetState dest, CallUpdate ''state'' dest]) \<and>
        (update_error tx2 = None \<longrightarrow>
          ?r = Do_after ?tx' ?sm' trigger userInfoId args (cfg ''after'')
               (last (Split source CHR '','')) dest
               (?pre @ [CallSetState dest, CallUpdate ''state'' dest]))"
  proof (cases "update_error tx2")
    case None
    then show ?thesis
      by (simp add: reach Do_persist_ok Do_after_frame)
  next
    case (Some fault)
    then show ?thesis
      by (cases fault) (simp_all add: reach Do_persist_fails)
  qed
  from main have ent: "res_entity ?r = SetState sm dest \<or> res_entity ?r = ?sm'"
    by (rule conjunct1)
  from main have upd: "filter is_update (res_calls ?r) = [CallUpdate ''state'' dest]"
    by (elim conjE)
  from main have fails: "\<forall>fault. update_error tx2 = Some fault \<longrightarrow>
        res_ret ?r = Return (Some (fault_error fault)) \<and>
        State (res_entity ?r) = dest \<and> res_db ?r = tx2 \<and>
        res_calls ?r = ?pre @ [CallSetState dest, CallUpdate ''state'' dest]"
    by (elim conjE)
  from main have goes: "update_error tx2 = None \<longrightarrow>
        ?r = Do_after ?tx' ?sm' trigger userInfoId args (cfg ''after'')
               (last (Split source CHR '','')) dest
               (?pre @ [CallSetState dest, CallUpdate ''state'' dest])"
    by (elim conjE)
  have c1: "res_entity ?r = sm\<lparr>State := dest\<rparr> \<or>
      res_entity ?r = sm\<lparr>State := dest, UpdatedAt := Some (now tx2)\<rparr>"
    using ent [unfolded a, unfolded s] by (cases "UpdatedAt sm = None") auto
  have c2: "UpdatedAt sm = None \<longrightarrow> res_entity ?r = sm\<lparr>State := dest\<rparr>"
    using ent [unfolded a, unfolded s] by auto
  have c5: "update_error tx2 = None \<longrightarrow>
        ?r = Do_after ?tx' ?sm' trigger userInfoId args (cfg ''after'')
               (last (Split source CHR '','')) dest
               (?pre @ [CallSetState dest, CallUpdate ''state'' dest]) \<and>
        res_entity ?r = ?sm' \<and>
        ?sm' = (if UpdatedAt sm = None then sm\<lparr>State := dest\<rparr>
           else sm\<lparr>State := dest, UpdatedAt := Some (now tx2)\<rparr>) \<and>
        ?tx' = (if UpdatedAt sm = None then tx2\<lparr>row := (row tx2)(''state'' \<mapsto> TextVal dest)\<rparr>
           else tx2\<lparr>row := (row tx2)(''state'' \<mapsto> TextVal dest,
                                        ''updated_at'' \<mapsto> TimeVal (now tx2))\<rparr>)"
  proof
    assume ok: "update_error tx2 = None"
    with goes have eq: "?r = Do_after ?tx' ?sm' trigger userInfoId args (cfg ''after'')
               (last (Split source CHR '','')) dest
               (?pre @ [CallSetState dest, CallUpdate ''state'' dest])"
      by (rule mp)
    have "res_entity ?r = ?sm'"
      by (subst eq) (rule Do_after_frame)
    with eq a w show "?r = Do_after ?tx' ?sm' trigger userInfoId args (cfg ''after'')
               (last (Split source CHR '','')) dest
               (?pre @ [CallSetState dest, CallUpdate ''state'' dest]) \<and>
        res_entity ?r = ?sm' \<and>
        ?sm' = (if UpdatedAt sm = None then sm\<lparr>State := dest\<rparr>
           else sm\<lparr>State := dest, UpdatedAt := Some (now tx2)\<rparr>) \<and>
        ?tx' = (if UpdatedAt sm = None then tx2\<lparr>row := (row tx2)(''state'' \<mapsto> TextVal dest)\<rparr>
           else tx2\<lparr>row := (row tx2)(''state'' \<mapsto> TextVal dest,
                                        ''updated_at'' \<mapsto> TimeVal (now tx2))\<rparr>)"
      by (intro conjI)
  qed
  from c1 c2 upd fails c5 show ?thesis
    by (simp only: append_assoc simp_thms)
qed

theorem Do_persists_state_and_update_time_witness:
  "Triggers (model_order ''Created'') ''pay'' = Some pay_hooked_cfg \<and>
   pay_hooked_cfg ''source'' = Some (VString ''Created'') \<and>
   pay_hooked_cfg ''dest'' = Some (VString ''Paid'') \<and>
   GetState (model_order ''Created'') \<in> sourceStates ''Created'' \<and>
   guard_passes pay_hooked_cfg empty_db [10] empty_db \<and>
   hook_succeeds (pay_hooked_cfg ''before'') empty_db [10] (empty_db\<lparr>other := 1\<rparr>) \<and>
   update_error (empty_db\<lparr>other := 1\<rparr>) = None \<and>
   res_entity (Do empty_db (model_order ''Created'') ''pay'' 7 [10]) =
     (model_order ''Created'')\<lparr>State := ''Paid'', UpdatedAt := Some 1000\<rparr> \<and>
   filter is_update (res_calls (Do empty_db (model_order ''Created'') ''pay'' 7 [10])) =
     [CallUpdate ''state'' ''Paid''] \<and>
   guard_passes pay_hooked_cfg failing_db [10] failing_db \<and>
   hook_succeeds (pay_hooked_cfg ''before'') failing_db [10] (failing_db\<lparr>other := 1\<rparr>) \<and>
   update_error (failing_db\<lparr>other := 1\<rparr>) = Some (AtExec (Foreign ''disk full'')) \<and>
   res_ret (Do failing_db (model_order ''Created'') ''pay'' 7 [10]) =
     Return (Some (Foreign ''disk full'')) \<and>
   State (res_entity (Do failing_db (model_order ''Created'') ''pay'' 7 [10])) = ''Paid'' \<and>
   res_db (Do failing_db (model_order ''Created'') ''pay'' 7 [10]) = failing_db\<lparr>other := 1\<rparr> \<and>
   res_calls (Do failing_db (model_order ''Created'') ''pay'' 7 [10]) =
     [CallCondition [10], CallBefore [10], CallSetState ''Paid'', CallUpdate ''state'' ''Paid'']"
proof -
  let ?o = "model_order ''Created''"
  have t: "Triggers ?o ''pay'' = Some pay_hooked_cfg"
    by (simp add: model_order_def order_of_def)
  have s: "pay_hooked_cfg ''source'' = Some (VString ''Created'')"
    and d: "pay_hooked_cfg ''dest'' = Some (VString ''Paid'')"
    by (simp_all add: pay_hooked_cfg_def pay_cfg_def)
  have g: "GetState ?o \<in> sourceStates ''Created''"
    by (simp add: model_order_def order_of_def GetState_def sourceStates_def)
  have gp: "guard_passes pay_hooked_cfg empty_db [10] empty_db"
    and gp': "guard_passes pay_hooked_cfg failing_db [10] failing_db"
    by (simp_all add: guard_passes_def pay_hooked_cfg_def pay_cfg_def amount_positive_def)
  have hb: "hook_succeeds (pay_hooked_cfg ''before'') empty_db [10] (empty_db\<lparr>other := 1\<rparr>)"
    and hb': "hook_succeeds (pay_hooked_cfg ''before'') failing_db [10] (failing_db\<lparr>other := 1\<rparr>)"
    by (simp_all add: hook_succeeds_def pay_hooked_cfg_def bump_hook_def empty_db_def
        failing_db_def)
  have u: "update_error (empty_db\<lparr>other := 1\<rparr>) = None"
    and u': "update_error (failing_db\<lparr>other := 1\<rparr>) = Some (AtExec (Foreign ''disk full''))"
    by (simp_all add: empty_db_def failing_db_def)
  have calls: "guard_calls pay_hooked_cfg [10] @
      hook_calls (pay_hooked_cfg ''before'') (CallBefore [10]) @
      [CallSetState ''Paid'', CallUpdate ''state'' ''Paid''] =
      [CallCondition [10], CallBefore [10::int], CallSetState ''Paid'',
       CallUpdate ''state'' ''Paid'']"
    by (simp add: guard_calls_def hook_calls_def pay_hooked_cfg_def pay_cfg_def)
  note ok = Do_persists_state_and_update_time [OF t s d g gp hb, of 7]
  note ko = Do_persists_state_and_update_time [OF t s d g gp' hb', of 7]
  from ok have upd: "filter is_update (res_calls (Do empty_db ?o ''pay'' 7 [10])) =
      [CallUpdate ''state'' ''Paid'']"
    by (elim conjE)
  from ok u have "res_entity (Do empty_db ?o ''pay'' 7 [10]) =
      assigned (empty_db\<lparr>other := 1\<rparr>) (SetState ?o ''Paid'') ''state'' ''Paid''"
    by (elim conjE) (erule (1) mp [THEN conjunct2, THEN conjunct1])
  then have ent: "res_entity (Do empty_db ?o ''pay'' 7 [10]) =
      ?o\<lparr>State := ''Paid'', UpdatedAt := Some 1000\<rparr>"
    by (simp add: assigned_SetState) (simp add: model_order_def empty_db_def)
  from ko u' have f: "res_ret (Do failing_db ?o ''pay'' 7 [10]) =
        Return (Some (fault_error (AtExec (Foreign ''disk full'')))) \<and>
      State (res_entity (Do failing_db ?o ''pay'' 7 [10])) = ''Paid'' \<and>
      res_db (Do failing_db ?o ''pay'' 7 [10]) = failing_db\<lparr>other := 1\<rparr> \<and>
      res_calls (Do failing_db ?o ''pay'' 7 [10]) =
        guard_calls pay_hooked_cfg [10] @
        hook_calls (pay_hooked_cfg ''before'') (CallBefore [10]) @
        [CallSetState ''Paid'', CallUpdate ''state'' ''Paid'']"
    by (elim conjE) (erule allE, erule (1) mp)
  from t s d g gp hb u ent upd gp' hb' u' f [unfolded calls] show ?thesis
    by simp
qed

text \<open>
  Claim C6: the state is not the only thing the update writes. An order that embeds
  \<open>gorm.Model\<close>, last updated at time 500, is paid at time 1000: after \<open>Do\<close> its
  \<open>UpdatedAt\<close> is 1000 and its row has the column \<open>updated_at\<close>, which it did
  not have before, set to 1000.
\<close>

theorem Do_update_sets_UpdatedAt:
  "UpdatedAt (model_order ''Created'') = Some 500 \<and>
   row empty_db ''updated_at'' = None \<and>
   UpdatedAt (res_entity (Do empty_db (model_order ''Created'') ''pay'' 7 [10])) = Some 1000 \<and>
   row (res_db (Do empty_db (model_order ''Created'') ''pay'' 7 [10])) ''updated_at'' =
     Some (TimeVal 1000)"
proof -
  let ?o = "model_order ''Created''"
  have t: "Triggers ?o ''pay'' = Some pay_hooked_cfg"
    by (simp add: model_order_def order_of_def)
  have s: "pay_hooked_cfg ''source'' = Some (VString ''Created'')"
    and d: "pay_hooked_cfg ''dest'' = Some (VString ''Paid'')"
    by (simp_all add: pay_hooked_cfg_def pay_cfg_def)
  have g: "GetState ?o \<in> sourceStates ''Created''"
    by (simp add: model_order_def order_of_def GetState_def sourceStates_def)
  have gp: "guard_passes pay_hooked_cfg empty_db [10] empty_db"
    by (simp add: guard_passes_def pay_hooked_cfg_def pay_cfg_def amount_positive_def)
  have hb: "hook_succeeds (pay_hooked_cfg ''before'') empty_db [10] (empty_db\<lparr>other := 1\<rparr>)"
    by (simp add: hook_succeeds_def pay_hooked_cfg_def bump_hook_def empty_db_def)
  have u: "update_error (empty_db\<lparr>other := 1\<rparr>) = None"
    by (simp add: empty_db_def)
  have ha: "hook_succeeds (pay_hooked_cfg ''after'')
      (written (empty_db\<lparr>other := 1\<rparr>) (SetState ?o ''Paid'') ''state'' ''Paid'') [10]
      ((written (empty_db\<lparr>other := 1\<rparr>) (SetState ?o ''Paid'') ''state'' ''Paid'')\<lparr>other := 2\<rparr>)"
    by (simp add: hook_succeeds_def pay_hooked_cfg_def bump_hook_def empty_db_def)
  have i: "ID ?o = UintField 42"
    by (simp add: model_order_def order_of_def)
  have c: "create_error ((written (empty_db\<lparr>other := 1\<rparr>) (SetState ?o ''Paid'') ''state'' ''Paid'')\<lparr>other := 2\<rparr>) = None"
    by (simp add: empty_db_def)
  note r = Do_succeeds [OF t s d g gp hb u ha i c, of 7]
  have 1: "UpdatedAt ?o = Some 500"
    by (simp add: model_order_def)
  have 2: "row empty_db ''updated_at'' = None"
    by (simp add: empty_db_def)
  have 3: "UpdatedAt (res_entity (Do empty_db ?o ''pay'' 7 [10])) = Some 1000"
    by (simp add: r assigned_SetState 1) (simp add: empty_db_def)
  have 4: "row (res_db (Do empty_db ?o ''pay'' 7 [10])) ''updated_at'' = Some (TimeVal 1000)"
    by (simp add: r written_SetState 1) (simp add: empty_db_def)
  from 1 2 3 4 show ?thesis by (intro conjI)
qed

subsection \<open>The state stays among the valid states\<close>

text \<open>
  A call of \<open>Do\<close> leaves the tables of the entity's type alone.
\<close>

lemma reachable_same_type:
  assumes "reachable sm0 sm"
  shows "States sm = States sm0 \<and> Triggers sm = Triggers sm0"
  using assms
proof (induction rule: reachable.induct)
  case reachable_start
  show ?case by simp
next
  case (reachable_Do sm sm' tx trigger userInfoId args)
  then show ?case
    using Do_entity [of tx sm trigger userInfoId args] by auto
qed

text \<open>
  Claim C7. If the state of an entity is one of its type's \<open>States()\<close>, and so is the
  \<open>dest\<close> of every declared trigger, then after any number of calls of \<open>Do\<close>,
  whatever their trigger, actor, arguments, database and outcome, the state is still one
  of \<open>States()\<close>: the only value \<open>Do\<close> writes to \<open>State\<close> is the \<open>dest\<close>
  of the trigger it was called with.
\<close>

theorem Do_keeps_state_valid:
  assumes "state_valid sm0" and "dests_valid sm0" and "reachable sm0 sm"
  shows "state_valid sm"
  using assms(3,1,2)
proof (induction rule: reachable.induct)
  case reachable_start
  then show ?case by simp
next
  case (reachable_Do sm sm' tx trigger userInfoId args)
  have same: "States sm = States sm0" "Triggers sm = Triggers sm0"
    using reachable_same_type [OF reachable_Do.hyps(1)] by simp_all
  have valid: "state_valid sm"
    using reachable_Do by simp
  from Do_entity [of tx sm trigger userInfoId args]
  show ?case
  proof
    assume "res_entity (Do tx sm trigger userInfoId args) = sm"
    with valid reachable_Do.hyps(2) show ?thesis by simp
  next
    assume "\<exists>cfg dest u. Triggers sm trigger = Some cfg \<and>
      cfg ''dest'' = Some (VString dest) \<and>
      res_entity (Do tx sm trigger userInfoId args) = sm\<lparr>State := dest, UpdatedAt := u\<rparr>"
    then obtain cfg dest u where d: "Triggers sm trigger = Some cfg"
      "cfg ''dest'' = Some (VString dest)"
      "res_entity (Do tx sm trigger userInfoId args) = sm\<lparr>State := dest, UpdatedAt := u\<rparr>"
      by blast
    have "dest \<in> set (States sm0)"
      using d(1,2) same(2) reachable_Do.prems(2) by (auto simp: dests_valid_def)
    then show ?thesis
      using d(3) same(1) reachable_Do.hyps(2) by (simp add: state_valid_def GetState_def)
  qed
qed

theorem Do_keeps_state_valid_witness:
  "state_valid (order_of [''pay'' \<mapsto> pay_hooked_cfg] (UintField 42) ''Created'') \<and>
   dests_valid (order_of [''pay'' \<mapsto> pay_hooked_cfg] (UintField 42) ''Created'') \<and>
   reachable (order_of [''pay'' \<mapsto> pay_hooked_cfg] (UintField 42) ''Created'')
     (order_of [''pay'' \<mapsto> pay_hooked_cfg] (UintField 42) ''Paid'') \<and>
   state_valid (order_of [''pay'' \<mapsto> pay_hooked_cfg] (UintField 42) ''Paid'')"
proof -
  let ?o = "order_of [''pay'' \<mapsto> pay_hooked_cfg] (UintField 42) ''Created''"
  let ?p = "order_of [''pay'' \<mapsto> pay_hooked_cfg] (UintField 42) ''Paid''"
  have v: "state_valid ?o"
    by (simp add: state_valid_def example_defs pay_hooked_cfg_def bump_hook_def vocabulary_defs)
  have d: "dests_valid ?o"
    by (auto simp: dests_valid_def example_defs pay_hooked_cfg_def bump_hook_def split: if_splits)
  have "?p = res_entity (Do empty_db ?o ''pay'' 7 [10])"
    by (simp add: Do_def scan_Split Do_condition_def Do_before_def Do_persist_def Do_after_def
      update_defs log_def Create_def Let_def
        example_defs pay_hooked_cfg_def bump_hook_def vocabulary_defs)
  then have r: "reachable ?o ?p"
    by (rule reachable_Do [OF reachable_start])
  from Do_keeps_state_valid [OF v d r] v d r show ?thesis by simp
qed

subsection \<open>Panics\<close>

lemma not_hook_or_nil:
  assumes "\<not> is_hook_or_nil h"
  obtains v where "h = Some v" and "assert_hook v = None"
  using assms by (cases h rule: is_hook_or_nil.cases) auto

lemma not_condition_or_nil:
  assumes "\<not> is_condition_or_nil c"
  obtains v where "c = Some v" and "assert_condition v = None"
  using assms by (cases c rule: is_condition_or_nil.cases) auto

lemma Do_after_panics:
  assumes "is_hook_or_nil a" and "filter is_println calls = []"
  shows "panics_at_audit sm (Do_after tx sm trigger userInfoId args a src dest calls)"
  using assms
  by (cases a rule: is_hook_or_nil.cases)
     (simp_all add: panics_at_audit_def Do_after_def log_Panic log_frame
        split: option.splits prod.splits)

lemma Do_persist_panics:
  assumes "is_hook_or_nil a" and "filter is_println calls = []"
  shows "panics_at_audit sm (Do_persist tx sm trigger userInfoId args a src dest calls)"
proof (cases "update_error tx")
  case None
  let ?sm' = "assigned tx (SetState sm dest) ''state'' dest"
  have "panics_at_audit ?sm'
          (Do_after (written tx (SetState sm dest) ''state'' dest) ?sm' trigger
             userInfoId args a src dest (calls @ [CallSetState dest, CallUpdate ''state'' dest]))"
    using assms by (intro Do_after_panics) simp_all
  then show ?thesis
    using None by (simp add: Do_persist_ok panics_at_audit_def)
next
  case (Some fault)
  then show ?thesis
    using assms by (simp add: Do_persist_fails panics_at_audit_def)
qed

lemma Do_before_panics:
  assumes "is_hook_or_nil b" and "is_hook_or_nil a" and "filter is_println calls = []"
  shows "panics_at_audit sm (Do_before tx sm trigger userInfoId args b a src dest calls)"
proof (cases b rule: is_hook_or_nil.cases)
  case 1
  then show ?thesis
    using assms by (simp add: Do_before_def Do_persist_panics)
next
  case (2 f)
  show ?thesis
  proof (cases "f tx args")
    case (Pair e tx')
    show ?thesis
    proof (cases e)
      case None
      with 2 Pair assms show ?thesis
        by (simp add: Do_before_def Do_persist_panics)
    next
      case (Some err)
      with 2 Pair assms show ?thesis
        by (simp add: Do_before_def panics_at_audit_def)
    qed
  qed
next
  case 3
  then show ?thesis
    using assms by (simp add: Do_before_def panics_at_audit_def)
qed (use assms in simp_all)

lemma Do_condition_panics:
  assumes "is_condition_or_nil c" and "is_hook_or_nil b" and "is_hook_or_nil a"
  shows "panics_at_audit sm (Do_condition tx sm trigger userInfoId args c b a src dest)"
proof (cases c rule: is_condition_or_nil.cases)
  case 1
  then show ?thesis
    using assms by (simp add: Do_condition_def Do_before_panics)
next
  case (2 g)
  show ?thesis
  proof (cases "g tx args")
    case (Pair ok tx')
    show ?thesis
    proof (cases ok)
      case True
      with 2 Pair assms show ?thesis
        by (simp add: Do_condition_def Do_before_panics)
    next
      case False
      with 2 Pair show ?thesis
        by (simp add: Do_condition_def panics_at_audit_def)
    qed
  qed
next
  case 3
  then show ?thesis
    by (simp add: Do_condition_def panics_at_audit_def)
qed (use assms in simp_all)

text \<open>A function that is not \<open>nil\<close> is not called as \<open>nil\<close>.\<close>

lemma Do_after_NilCall:
  "res_ret (Do_after tx sm trigger userInfoId args a src dest calls) = Panic NilCall \<longleftrightarrow>
     a = Some VNilHook"
  by (cases a rule: is_nil_function.cases)
     (auto simp: Do_after_def log_Panic split: option.splits prod.splits iface.splits)

lemma Do_persist_NilCall:
  assumes "\<not> is_nil_function a"
  shows "res_ret (Do_persist tx sm trigger userInfoId args a src dest calls) \<noteq> Panic NilCall"
proof (cases "update_error tx")
  case None
  then show ?thesis
    using assms by (auto simp: Do_persist_ok Do_after_NilCall)
next
  case (Some fault)
  then show ?thesis
    by (simp add: Do_persist_fails)
qed

lemma Do_before_NilCall:
  assumes "\<not> is_nil_function b" and "\<not> is_nil_function a"
  shows "res_ret (Do_before tx sm trigger userInfoId args b a src dest calls) \<noteq> Panic NilCall"
  using assms Do_persist_NilCall [OF assms(2), of _ sm trigger userInfoId args src dest]
  by (cases b rule: is_nil_function.cases)
     (auto simp: Do_before_def split: option.splits prod.splits iface.splits)

lemma Do_condition_NilCall:
  assumes "\<not> is_nil_function c" and "\<not> is_nil_function b" and "\<not> is_nil_function a"
  shows "res_ret (Do_condition tx sm trigger userInfoId args c b a src dest) \<noteq> Panic NilCall"
  using assms Do_before_NilCall [OF assms(2,3), of _ sm trigger userInfoId args src dest]
  by (cases c rule: is_nil_function.cases)
     (auto simp: Do_condition_def split: option.splits prod.splits iface.splits bool.splits)

text \<open>
  Claim C10. For a declared trigger, call its configuration well typed when \<open>source\<close>
  and \<open>dest\<close> are strings and \<open>condition\<close>, \<open>before\<close> and \<open>after\<close> are
  absent or of the function type that \<open>Do\<close> asserts.
  \<^item> Under well-typedness no type assertion of \<open>Do\<close> fails.
  \<^item> If moreover none of the three functions is \<open>nil\<close> and the entity has an unsigned
    field \<open>ID\<close>, \<open>Do\<close> returns (the hooks are taken to return).
  \<^item> Well-typedness is needed, entry by entry: a \<open>source\<close> or \<open>dest\<close> that is not
    a string makes \<open>Do\<close> panic at once; an ill-typed \<open>condition\<close> makes it panic
    as soon as the state is among the source states; an ill-typed \<open>before\<close> as soon
    as the guard has passed; an ill-typed \<open>after\<close> as soon as the update has gone
    through. A \<open>nil\<close> function of the right type passes the assertion and panics in
    the call, at the same places.
  \<^item> Under well-typedness, the reflection call of the audit step panics exactly when
    \<open>Do\<close> reaches that step and the entity has no unsigned field \<open>ID\<close>.
\<close>

theorem Do_total_if_well_typed:
  assumes "Triggers sm trigger = Some cfg"
  shows "(well_typed cfg \<longrightarrow> res_ret (Do tx sm trigger userInfoId args) \<noteq> Panic FailedAssertion) \<and>
         (well_typed cfg \<and> callable cfg \<and> has_uint_ID (ID sm) \<longrightarrow>
            (\<exists>err. res_ret (Do tx sm trigger userInfoId args) = Return err)) \<and>
         (\<not> is_string (cfg ''source'') \<or> \<not> is_string (cfg ''dest'') \<longrightarrow>
            res_ret (Do tx sm trigger userInfoId args) = Panic FailedAssertion) \<and>
         (cfg ''source'' = Some (VString source) \<and> cfg ''dest'' = Some (VString dest) \<and>
          GetState sm \<in> sourceStates source \<longrightarrow>
            (\<not> is_condition_or_nil (cfg ''condition'') \<longrightarrow>
               res_ret (Do tx sm trigger userInfoId args) = Panic FailedAssertion) \<and>
            (cfg ''condition'' = Some VNilCondition \<longrightarrow>
               res_ret (Do tx sm trigger userInfoId args) = Panic NilCall) \<and>
            (guard_passes cfg tx args tx1 \<longrightarrow>
               (\<not> is_hook_or_nil (cfg ''before'') \<longrightarrow>
                  res_ret (Do tx sm trigger userInfoId args) = Panic FailedAssertion) \<and>
               (cfg ''before'' = Some VNilHook \<longrightarrow>
                  res_ret (Do tx sm trigger userInfoId args) = Panic NilCall) \<and>
               (hook_succeeds (cfg ''before'') tx1 args tx2 \<and> update_error tx2 = None \<longrightarrow>
                  (\<not> is_hook_or_nil (cfg ''after'') \<longrightarrow>
                     res_ret (Do tx sm trigger userInfoId args) = Panic FailedAssertion) \<and>
                  (cfg ''after'' = Some VNilHook \<longrightarrow>
                     res_ret (Do tx sm trigger userInfoId args) = Panic NilCall)))) \<and>
         (well_typed cfg \<longrightarrow>
            (res_ret (Do tx sm trigger userInfoId args) = Panic NoUintID) =
            (\<not> has_uint_ID (ID sm) \<and>
             filter is_println (res_calls (Do tx sm trigger userInfoId args)) \<noteq> []))"
proof -
  let ?r = "Do tx sm trigger userInfoId args"
  have ill: "res_ret ?r = Panic FailedAssertion"
    if "\<not> is_string (cfg ''source'') \<or> \<not> is_string (cfg ''dest'')"
    using that assms by (auto simp: Do_def is_string_assert split: option.splits)
  have wt: "panics_at_audit sm ?r" if "well_typed cfg"
  proof -
    from that obtain source dest where sd: "cfg ''source'' = Some (VString source)"
      "cfg ''dest'' = Some (VString dest)"
      by (auto simp: well_typed_def is_string_iff)
    show ?thesis
    proof (cases "State sm \<in> sourceStates source")
      case True
      then show ?thesis
        using that Do_condition_panics [of "cfg ''condition''" "cfg ''before''" "cfg ''after''"]
        by (simp add: Do_declared [OF assms sd] well_typed_def)
    next
      case False
      then show ?thesis
        by (simp add: Do_declared [OF assms sd] panics_at_audit_def)
    qed
  qed
  have nil: "res_ret ?r \<noteq> Panic NilCall" if "well_typed cfg" "callable cfg"
  proof -
    from that(1) obtain source dest where sd: "cfg ''source'' = Some (VString source)"
      "cfg ''dest'' = Some (VString dest)"
      by (auto simp: well_typed_def is_string_iff)
    from that(2) have n: "\<not> is_nil_function (cfg ''condition'')"
      "\<not> is_nil_function (cfg ''before'')" "\<not> is_nil_function (cfg ''after'')"
      by (simp_all add: callable_def)
    show ?thesis
      using Do_condition_NilCall [OF n, of tx sm trigger userInfoId args
          "last (Split source CHR '','')" dest]
      by (simp add: Do_declared [OF assms sd])
  qed
  have tot: "\<exists>err. res_ret ?r = Return err"
    if "well_typed cfg" "callable cfg" "has_uint_ID (ID sm)"
  proof (cases "res_ret ?r")
    case (Panic p)
    with wt [OF that(1)] nil [OF that(1,2)] that(3) show ?thesis
      by (cases p) (simp_all add: panics_at_audit_def)
  next
    case (Return err)
    then show ?thesis by blast
  qed
  have reached: "(\<not> is_condition_or_nil (cfg ''condition'') \<longrightarrow>
               res_ret ?r = Panic FailedAssertion) \<and>
            (cfg ''condition'' = Some VNilCondition \<longrightarrow> res_ret ?r = Panic NilCall) \<and>
            (guard_passes cfg tx args tx1 \<longrightarrow>
               (\<not> is_hook_or_nil (cfg ''before'') \<longrightarrow> res_ret ?r = Panic FailedAssertion) \<and>
               (cfg ''before'' = Some VNilHook \<longrightarrow> res_ret ?r = Panic NilCall) \<and>
               (hook_succeeds (cfg ''before'') tx1 args tx2 \<and> update_error tx2 = None \<longrightarrow>
                  (\<not> is_hook_or_nil (cfg ''after'') \<longrightarrow> res_ret ?r = Panic FailedAssertion) \<and>
                  (cfg ''after'' = Some VNilHook \<longrightarrow> res_ret ?r = Panic NilCall)))"
    if sd: "cfg ''source'' = Some (VString source)" "cfg ''dest'' = Some (VString dest)"
      and can: "GetState sm \<in> sourceStates source"
  proof -
    let ?src = "last (Split source CHR '','')"
    have r: "?r = Do_condition tx sm trigger userInfoId args (cfg ''condition'')
        (cfg ''before'') (cfg ''after'') ?src dest"
      using can by (simp add: Do_declared [OF assms sd] GetState_def)
    have c1: "res_ret ?r = Panic FailedAssertion" if "\<not> is_condition_or_nil (cfg ''condition'')"
      using that by (elim not_condition_or_nil) (simp add: r Do_condition_def)
    have c2: "res_ret ?r = Panic NilCall" if "cfg ''condition'' = Some VNilCondition"
      using that by (simp add: r Do_condition_def)
    have b: "?r = Do_before tx1 sm trigger userInfoId args (cfg ''before'') (cfg ''after'')
        ?src dest (guard_calls cfg args)" if "guard_passes cfg tx args tx1"
      using that by (simp add: r Do_condition_passes)
    have b1: "res_ret ?r = Panic FailedAssertion"
      if "guard_passes cfg tx args tx1" "\<not> is_hook_or_nil (cfg ''before'')"
      using that(2) by (elim not_hook_or_nil) (simp add: b [OF that(1)] Do_before_def)
    have b2: "res_ret ?r = Panic NilCall"
      if "guard_passes cfg tx args tx1" "cfg ''before'' = Some VNilHook"
      using that(2) by (simp add: b [OF that(1)] Do_before_def)
    have a: "?r = Do_after (written tx2 (SetState sm dest) ''state'' dest)
        (assigned tx2 (SetState sm dest) ''state'' dest) trigger userInfoId args (cfg ''after'')
        ?src dest
        ((guard_calls cfg args @ hook_calls (cfg ''before'') (CallBefore args)) @
         [CallSetState dest, CallUpdate ''state'' dest])"
      if "guard_passes cfg tx args tx1" "hook_succeeds (cfg ''before'') tx1 args tx2"
        "update_error tx2 = None"
      using that by (simp only: b Do_before_succeeds Do_persist_ok)
    have a1: "res_ret ?r = Panic FailedAssertion"
      if "guard_passes cfg tx args tx1" "hook_succeeds (cfg ''before'') tx1 args tx2"
        "update_error tx2 = None" "\<not> is_hook_or_nil (cfg ''after'')"
      using that(4) by (elim not_hook_or_nil) (simp add: a [OF that(1-3)] Do_after_def)
    have a2: "res_ret ?r = Panic NilCall"
      if "guard_passes cfg tx args tx1" "hook_succeeds (cfg ''before'') tx1 args tx2"
        "update_error tx2 = None" "cfg ''after'' = Some VNilHook"
      using that(4) by (simp add: a [OF that(1-3)] Do_after_def)
    from c1 c2 b1 b2 a1 a2 show ?thesis by blast
  qed
  have audit: "(res_ret ?r = Panic NoUintID) =
      (\<not> has_uint_ID (ID sm) \<and> filter is_println (res_calls ?r) \<noteq> [])" if "well_typed cfg"
    using wt [OF that] by (simp add: panics_at_audit_def)
  have assertions: "res_ret ?r \<noteq> Panic FailedAssertion" if "well_typed cfg"
    using wt [OF that] by (simp add: panics_at_audit_def)
  from assertions tot ill reached audit show ?thesis
    by blast
qed

theorem Do_total_if_well_typed_witness:
  "Triggers (order_of [''pay'' \<mapsto> pay_hooked_cfg] (UintField 42) ''Created'') ''pay'' =
     Some pay_hooked_cfg \<and>
   well_typed pay_hooked_cfg \<and> callable pay_hooked_cfg \<and> has_uint_ID (UintField 42) \<and>
   (\<exists>err. res_ret (Do empty_db (order_of [''pay'' \<mapsto> pay_hooked_cfg] (UintField 42) ''Created'')
              ''pay'' 7 [10]) = Return err) \<and>
   \<not> has_uint_ID NoField \<and>
   res_ret (Do empty_db (order_of [''pay'' \<mapsto> pay_hooked_cfg] NoField ''Created'') ''pay'' 7 [10]) =
     Panic NoUintID \<and>
   \<not> is_string (untyped_cfg ''source'') \<and>
   res_ret (Do empty_db (order_of [''pay'' \<mapsto> untyped_cfg] (UintField 42) ''Created'') ''pay'' 7 [10]) =
     Panic FailedAssertion \<and>
   \<not> is_condition_or_nil (bad_condition_cfg ''condition'') \<and>
   res_ret (Do empty_db (order_of [''pay'' \<mapsto> bad_condition_cfg] (UintField 42) ''Created'')
     ''pay'' 7 [10]) = Panic FailedAssertion \<and>
   guard_passes bad_before_cfg empty_db [10] empty_db \<and>
   \<not> is_hook_or_nil (bad_before_cfg ''before'') \<and>
   res_ret (Do empty_db (order_of [''pay'' \<mapsto> bad_before_cfg] (UintField 42) ''Created'')
     ''pay'' 7 [10]) = Panic FailedAssertion \<and>
   guard_passes bad_after_cfg empty_db [10] empty_db \<and>
   hook_succeeds (bad_after_cfg ''before'') empty_db [10] empty_db \<and>
   update_error empty_db = None \<and>
   \<not> is_hook_or_nil (bad_after_cfg ''after'') \<and>
   res_ret (Do empty_db (order_of [''pay'' \<mapsto> bad_after_cfg] (UintField 42) ''Created'')
     ''pay'' 7 [10]) = Panic FailedAssertion \<and>
   guard_passes nil_before_cfg empty_db [10] empty_db \<and>
   nil_before_cfg ''before'' = Some VNilHook \<and>
   res_ret (Do empty_db (order_of [''pay'' \<mapsto> nil_before_cfg] (UintField 42) ''Created'')
     ''pay'' 7 [10]) = Panic NilCall"
proof -
  have t: "Triggers (order_of [''pay'' \<mapsto> c] i ''Created'') ''pay'' = Some c"
    for c :: "(int, string, nat) config" and i
    by (simp add: order_of_def)
  have can: "GetState (order_of [''pay'' \<mapsto> c] i ''Created'') \<in> sourceStates ''Created''"
    for c :: "(int, string, nat) config" and i
    by (simp add: order_of_def GetState_def sourceStates_def)
  have wt: "well_typed pay_hooked_cfg" and ca: "callable pay_hooked_cfg"
    by (simp_all add: well_typed_def callable_def pay_hooked_cfg_def pay_cfg_def)
  have id: "ID (order_of [''pay'' \<mapsto> c] i ''Created'') = i"
    for c :: "(int, string, nat) config" and i
    by (simp add: order_of_def)
  have pr: "filter is_println (res_calls
      (Do empty_db (order_of [''pay'' \<mapsto> pay_hooked_cfg] NoField ''Created'') ''pay'' 7 [10])) \<noteq> []"
    by (simp add: Do_def scan_Split Do_condition_def Do_before_def Do_persist_def Do_after_def
      log_def Create_def Let_def update_defs example_defs pay_hooked_cfg_def bump_hook_def
      vocabulary_defs)
  have ill: "\<not> is_string (untyped_cfg ''source'')"
    by (simp add: untyped_cfg_def)
  have sd: "c ''source'' = Some (VString ''Created'')" "c ''dest'' = Some (VString ''Paid'')"
    if "c = bad_condition_cfg \<or> c = bad_before_cfg \<or> c = bad_after_cfg \<or> c = nil_before_cfg"
    for c
    using that
    by (auto simp: bad_condition_cfg_def bad_before_cfg_def bad_after_cfg_def nil_before_cfg_def
        pay_cfg_def)
  have bc: "\<not> is_condition_or_nil (bad_condition_cfg ''condition'')"
    by (simp add: bad_condition_cfg_def)
  have gp: "guard_passes bad_before_cfg empty_db [10] empty_db"
    "guard_passes bad_after_cfg empty_db [10] empty_db"
    "guard_passes nil_before_cfg empty_db [10] empty_db"
    by (simp_all add: guard_passes_def bad_before_cfg_def bad_after_cfg_def nil_before_cfg_def
        pay_cfg_def amount_positive_def)
  have bb: "\<not> is_hook_or_nil (bad_before_cfg ''before'')"
    by (simp add: bad_before_cfg_def)
  have hs: "hook_succeeds (bad_after_cfg ''before'') empty_db [10] empty_db"
    by (simp add: hook_succeeds_def bad_after_cfg_def pay_cfg_def)
  have ue: "update_error empty_db = None"
    by (simp add: empty_db_def)
  have ba: "\<not> is_hook_or_nil (bad_after_cfg ''after'')"
    by (simp add: bad_after_cfg_def)
  have nb: "nil_before_cfg ''before'' = Some VNilHook"
    by (simp add: nil_before_cfg_def)
  have 1: "\<exists>err. res_ret (Do empty_db (order_of [''pay'' \<mapsto> pay_hooked_cfg] (UintField 42) ''Created'')
              ''pay'' 7 [10]) = Return err"
    using Do_total_if_well_typed [OF t [of pay_hooked_cfg "UintField 42"], of empty_db 7 "[10]"]
      wt ca by (simp add: id)
  have 2: "res_ret (Do empty_db (order_of [''pay'' \<mapsto> pay_hooked_cfg] NoField ''Created'')
      ''pay'' 7 [10]) = Panic NoUintID"
    using Do_total_if_well_typed [OF t [of pay_hooked_cfg NoField], of empty_db 7 "[10]"]
      wt pr by (simp add: id)
  have 3: "res_ret (Do empty_db (order_of [''pay'' \<mapsto> untyped_cfg] (UintField 42) ''Created'')
      ''pay'' 7 [10]) = Panic FailedAssertion"
    using Do_total_if_well_typed [OF t [of untyped_cfg "UintField 42"], of empty_db 7 "[10]"]
      ill by blast
  have 4: "res_ret (Do empty_db (order_of [''pay'' \<mapsto> bad_condition_cfg] (UintField 42) ''Created'')
      ''pay'' 7 [10]) = Panic FailedAssertion"
    using Do_total_if_well_typed [OF t [of bad_condition_cfg "UintField 42"], of empty_db 7 "[10]"
        "''Created''" "''Paid''"] sd [of bad_condition_cfg] can bc
    by blast
  have 5: "res_ret (Do empty_db (order_of [''pay'' \<mapsto> bad_before_cfg] (UintField 42) ''Created'')
      ''pay'' 7 [10]) = Panic FailedAssertion"
    using Do_total_if_well_typed [OF t [of bad_before_cfg "UintField 42"], of empty_db 7 "[10]"
        "''Created''" "''Paid''" empty_db] sd [of bad_before_cfg] can gp(1) bb
    by blast
  have 6: "res_ret (Do empty_db (order_of [''pay'' \<mapsto> bad_after_cfg] (UintField 42) ''Created'')
      ''pay'' 7 [10]) = Panic FailedAssertion"
    using Do_total_if_well_typed [OF t [of bad_after_cfg "UintField 42"], of empty_db 7 "[10]"
        "''Created''" "''Paid''" empty_db empty_db] sd [of bad_after_cfg] can gp(2) hs ue ba
    by blast
  have 7: "res_ret (Do empty_db (order_of [''pay'' \<mapsto> nil_before_cfg] (UintField 42) ''Created'')
      ''pay'' 7 [10]) = Panic NilCall"
    using Do_total_if_well_typed [OF t [of nil_before_cfg "UintField 42"], of empty_db 7 "[10]"
        "''Created''" "''Paid''" empty_db] sd [of nil_before_cfg] can gp(3) nb
    by blast
  have u: "has_uint_ID (UintField 42)" "\<not> has_uint_ID NoField"
    by simp_all
  from t [of pay_hooked_cfg "UintField 42"] wt ca u 1 2 ill 3 bc 4 gp bb 5 hs ue ba 6 nb 7
  show ?thesis
    by (intro conjI)
qed

subsection \<open>The triggers on offer\<close>

lemma append_matches_distinct:
  assumes "distinct srcs"
  shows "append_matches srcs cur entry acc = (if cur \<in> set srcs then acc @ [entry] else acc)"
  using assms by (induction srcs arbitrary: acc) auto

lemma AvailableTriggers_loop_eq:
  assumes "sources_distinct sm"
  shows "AvailableTriggers_loop Sprintf sm keys acc =
         Some (acc @ map (entry_of Sprintf sm) (filter (available sm) keys))"
proof (induction keys arbitrary: acc)
  case Nil
  show ?case by simp
next
  case (Cons trigger keys)
  show ?case
  proof (cases "Triggers sm trigger")
    case None
    then show ?thesis
      by (simp add: Cons.IH available_def)
  next
    case (Some config)
    with assms obtain source where src: "config ''source'' = Some (VString source)"
      "distinct (Split source CHR '','')"
      unfolding sources_distinct_def by blast
    show ?thesis
      using Some src
      by (simp add: Cons.IH available_def append_matches_distinct sourceStates_def entry_of_def)
  qed
qed

text \<open>
  Claim C2, as amended. Let every declared trigger have a string \<open>source\<close> that names
  no state twice, and let \<open>keys\<close> be the order in which the trigger table is ranged
  over. Then \<open>AvailableTriggers\<close> returns, in that order, one entry for each declared
  trigger whose source states contain the current state, and for no other; the entry
  pairs the trigger with the translation of \<open><struct name>:<trigger>\<close>.
\<close>

theorem AvailableTriggers_in_iteration_order:
  assumes "sources_distinct sm" and "iteration_order sm keys"
  shows "AvailableTriggers Sprintf keys sm =
           Some (map (entry_of Sprintf sm) (filter (available sm) keys)) \<and>
         distinct (filter (available sm) keys) \<and>
         set (filter (available sm) keys) = {trigger. available sm trigger}"
proof -
  have "available sm trigger \<Longrightarrow> trigger \<in> dom (Triggers sm)" for trigger
    by (auto simp: available_def split: option.splits)
  then have "set (filter (available sm) keys) = {trigger. available sm trigger}"
    using assms(2) by (auto simp: iteration_order_def)
  moreover have "distinct (filter (available sm) keys)"
    using assms(2) by (simp add: iteration_order_def)
  ultimately show ?thesis
    using AvailableTriggers_loop_eq [OF assms(1), of Sprintf keys "[]"]
    by (simp add: AvailableTriggers_def)
qed

theorem AvailableTriggers_in_iteration_order_witness:
  "sources_distinct (order_of [''pay'' \<mapsto> pay_cfg, ''cancel'' \<mapsto> cancel_cfg] (UintField 42) ''Created'') \<and>
   iteration_order (order_of [''pay'' \<mapsto> pay_cfg, ''cancel'' \<mapsto> cancel_cfg] (UintField 42) ''Created'')
     [''cancel'', ''pay''] \<and>
   AvailableTriggers translate [''cancel'', ''pay'']
     (order_of [''pay'' \<mapsto> pay_cfg, ''cancel'' \<mapsto> cancel_cfg] (UintField 42) ''Created'') =
     Some [\<lparr>TranslatedTrigger = ''<Order:cancel>'', TriggerName = ''cancel''\<rparr>,
           \<lparr>TranslatedTrigger = ''<Order:pay>'', TriggerName = ''pay''\<rparr>]"
proof -
  let ?o = "order_of [''pay'' \<mapsto> pay_cfg, ''cancel'' \<mapsto> cancel_cfg] (UintField 42) ''Created''"
  have s: "sources_distinct ?o"
    by (auto simp: sources_distinct_def example_defs cancel_cfg_def translate_def split: if_splits)
  have i: "iteration_order ?o [''cancel'', ''pay'']"
    by (auto simp: iteration_order_def example_defs cancel_cfg_def translate_def)
  have a: "filter (available ?o) [''cancel'', ''pay''] = [''cancel'', ''pay'']"
    by (simp add: available_def example_defs cancel_cfg_def translate_def vocabulary_defs)
  have e: "map (entry_of translate ?o) [''cancel'', ''pay''] =
      [\<lparr>TranslatedTrigger = ''<Order:cancel>'', TriggerName = ''cancel''\<rparr>,
       \<lparr>TranslatedTrigger = ''<Order:pay>'', TriggerName = ''pay''\<rparr>]"
    by (simp add: entry_of_def example_defs cancel_cfg_def translate_def)
  have "AvailableTriggers translate [''cancel'', ''pay''] ?o =
      Some (map (entry_of translate ?o) (filter (available ?o) [''cancel'', ''pay'']))"
    using AvailableTriggers_in_iteration_order [OF s i, of translate] by (rule conjunct1)
  then have "AvailableTriggers translate [''cancel'', ''pay''] ?o =
      Some [\<lparr>TranslatedTrigger = ''<Order:cancel>'', TriggerName = ''cancel''\<rparr>,
            \<lparr>TranslatedTrigger = ''<Order:pay>'', TriggerName = ''pay''\<rparr>]"
    unfolding a e .
  with s i show ?thesis by blast
qed

text \<open>
  Claim C2: the order of the entries is that of the map iteration, which the code does
  not fix: for the two enumerations of a table with the triggers \<open>pay\<close> and
  \<open>cancel\<close> the results differ. And a trigger whose source list names the current
  state twice is entered twice.
\<close>

theorem AvailableTriggers_order_not_fixed:
  "iteration_order (order_of [''pay'' \<mapsto> pay_cfg, ''cancel'' \<mapsto> cancel_cfg] (UintField 42) ''Created'')
     [''cancel'', ''pay''] \<and>
   iteration_order (order_of [''pay'' \<mapsto> pay_cfg, ''cancel'' \<mapsto> cancel_cfg] (UintField 42) ''Created'')
     [''pay'', ''cancel''] \<and>
   AvailableTriggers translate [''cancel'', ''pay'']
     (order_of [''pay'' \<mapsto> pay_cfg, ''cancel'' \<mapsto> cancel_cfg] (UintField 42) ''Created'') \<noteq>
   AvailableTriggers translate [''pay'', ''cancel'']
     (order_of [''pay'' \<mapsto> pay_cfg, ''cancel'' \<mapsto> cancel_cfg] (UintField 42) ''Created'') \<and>
   AvailableTriggers translate [''cancel'']
     (order_of [''cancel'' \<mapsto> cancel_twice_cfg] (UintField 42) ''Created'') =
     Some [\<lparr>TranslatedTrigger = ''<Order:cancel>'', TriggerName = ''cancel''\<rparr>,
           \<lparr>TranslatedTrigger = ''<Order:cancel>'', TriggerName = ''cancel''\<rparr>]"
proof -
  let ?o = "order_of [''pay'' \<mapsto> pay_cfg, ''cancel'' \<mapsto> cancel_cfg] (UintField 42) ''Created''"
  have "iteration_order ?o [''cancel'', ''pay'']" "iteration_order ?o [''pay'', ''cancel'']"
    by (auto simp: iteration_order_def
      example_defs cancel_cfg_def cancel_twice_cfg_def translate_def)
  moreover have "AvailableTriggers translate [''cancel'', ''pay''] ?o \<noteq>
      AvailableTriggers translate [''pay'', ''cancel''] ?o"
    by (simp add: AvailableTriggers_def
      example_defs cancel_cfg_def cancel_twice_cfg_def translate_def vocabulary_defs)
  moreover have "AvailableTriggers translate [''cancel'']
     (order_of [''cancel'' \<mapsto> cancel_twice_cfg] (UintField 42) ''Created'') =
     Some [\<lparr>TranslatedTrigger = ''<Order:cancel>'', TriggerName = ''cancel''\<rparr>,
           \<lparr>TranslatedTrigger = ''<Order:cancel>'', TriggerName = ''cancel''\<rparr>]"
    by (simp add: AvailableTriggers_def
      example_defs cancel_cfg_def cancel_twice_cfg_def translate_def vocabulary_defs)
  ultimately show ?thesis by blast
qed

end
